theory Spec2Isabelle
  imports Complex_Main "HOL-Library.AList"
begin

section \<open>Widgets of the split layout\<close>

text \<open>
  The layout of one tab is a tree of live GTK widgets: a \<^verbatim>\<open>TerminalPage\<close> leaf or a
  \<^verbatim>\<open>SplitContainer\<close> (a \<^verbatim>\<open>Gtk.Paned\<close>) with two child slots, each of which may be empty.
  Every widget is a JavaScript object; \<^verbatim>\<open>===\<close> compares object identity, which is kept here
  as a number per object. A terminal page carries its own state \<open>'p\<close>, opaque to the layout
  code. A split carries its orientation (the integer value of \<^verbatim>\<open>Gtk.Orientation\<close>), the field
  \<^verbatim>\<open>_split_position\<close>, the field \<^verbatim>\<open>_active_child\<close> and the two slots of the paned.

  \<^verbatim>\<open>_active_child\<close> is written only by the handler of \<^verbatim>\<open>set-focus-child\<close>, so it is always
  the focus child of the paned: one of its two children, or null. It is kept as the slot
  it names.
\<close>

type_synonym obj = nat

datatype side = First | Second

datatype 'p widget =
    TerminalPage obj 'p
  | SplitContainer obj int real "side option" "'p widget option" "'p widget option"

fun obj_id :: "'p widget \<Rightarrow> obj" where
  "obj_id (TerminalPage i _) = i"
| "obj_id (SplitContainer i _ _ _ _ _) = i"

text \<open>\<^verbatim>\<open>a === b\<close> on two references that may be null.\<close>

fun same_obj :: "'p widget option \<Rightarrow> 'p widget option \<Rightarrow> bool" where
  "same_obj None None = True"
| "same_obj (Some a) (Some b) = (obj_id a = obj_id b)"
| "same_obj _ _ = False"

fun is_split_container :: "'p widget \<Rightarrow> bool" where
  "is_split_container (SplitContainer _ _ _ _ _ _) = True"
| "is_split_container (TerminalPage _ _) = False"

fun is_terminal :: "'p widget \<Rightarrow> bool" where
  "is_terminal w = (\<not> is_split_container w)"

definition HORIZONTAL :: int where "HORIZONTAL = 0"
definition VERTICAL :: int where "VERTICAL = 1"

fun get_child1 :: "'p widget \<Rightarrow> 'p widget option" where
  "get_child1 (SplitContainer _ _ _ _ c1 _) = c1"
| "get_child1 (TerminalPage _ _) = None"

fun get_child2 :: "'p widget \<Rightarrow> 'p widget option" where
  "get_child2 (SplitContainer _ _ _ _ _ c2) = c2"
| "get_child2 (TerminalPage _ _) = None"

fun orientation :: "'p widget \<Rightarrow> int" where
  "orientation (SplitContainer _ ori _ _ _ _) = ori"
| "orientation (TerminalPage _ _) = HORIZONTAL"

fun split_position :: "'p widget \<Rightarrow> real" where
  "split_position (SplitContainer _ _ pos _ _ _) = pos"
| "split_position (TerminalPage _ _) = 0"

fun active_child :: "'p widget \<Rightarrow> side option" where
  "active_child (SplitContainer _ _ _ ac _ _) = ac"
| "active_child (TerminalPage _ _) = None"

text \<open>
  \<^verbatim>\<open>Gtk.Paned\<close>: \<^verbatim>\<open>pack1\<close> and \<^verbatim>\<open>pack2\<close> fill an empty slot and leave an occupied one
  as it is; \<^verbatim>\<open>remove\<close> empties the slot that holds
  the widget and, when that widget was the focus child, emits \<^verbatim>\<open>set-focus-child\<close> with null,
  which \<^verbatim>\<open>_on_focus_child_change\<close> stores in \<^verbatim>\<open>_active_child\<close>.
\<close>

fun pack1 :: "'p widget \<Rightarrow> 'p widget \<Rightarrow> 'p widget" where
  "pack1 (SplitContainer i ori pos ac c1 c2) w =
     (case c1 of None \<Rightarrow> SplitContainer i ori pos ac (Some w) c2
               | Some _ \<Rightarrow> SplitContainer i ori pos ac c1 c2)"
| "pack1 (TerminalPage i p) w = TerminalPage i p"

fun pack2 :: "'p widget \<Rightarrow> 'p widget \<Rightarrow> 'p widget" where
  "pack2 (SplitContainer i ori pos ac c1 c2) w =
     (case c2 of None \<Rightarrow> SplitContainer i ori pos ac c1 (Some w)
               | Some _ \<Rightarrow> SplitContainer i ori pos ac c1 c2)"
| "pack2 (TerminalPage i p) w = TerminalPage i p"

fun paned_remove :: "'p widget \<Rightarrow> 'p widget \<Rightarrow> 'p widget" where
  "paned_remove (SplitContainer i ori pos ac c1 c2) w =
     (if same_obj c1 (Some w) then
        SplitContainer i ori pos (if ac = Some First then None else ac) None c2
      else if same_obj c2 (Some w) then
        SplitContainer i ori pos (if ac = Some Second then None else ac) c1 None
      else SplitContainer i ori pos ac c1 c2)"
| "paned_remove (TerminalPage i p) w = TerminalPage i p"

subsection \<open>Queries of a split\<close>

text \<open>\<^verbatim>\<open>_get_first_terminal\<close>: the first terminal in traversal order, or null.\<close>

fun get_first_terminal :: "'p widget \<Rightarrow> 'p widget option" where
  "get_first_terminal (SplitContainer i ori pos ac c1 c2) =
     (case (case c1 of
              None \<Rightarrow> None
            | Some child1 \<Rightarrow>
                if is_terminal child1 then Some (Some child1)
                else Some (get_first_terminal child1)) of
        Some r \<Rightarrow> r
      | None \<Rightarrow>
         (case c2 of
            None \<Rightarrow> None
          | Some child2 \<Rightarrow>
              if is_terminal child2 then Some child2
              else get_first_terminal child2))"
| "get_first_terminal (TerminalPage i p) = None"

text \<open>
  The getter \<^verbatim>\<open>active_terminal\<close>. \<^verbatim>\<open>get_focus_child()\<close> is the widget last announced by
  \<^verbatim>\<open>set-focus-child\<close>, that is \<^verbatim>\<open>_active_child\<close> again, so the second block of the getter
  is reached only with both null and falls through to \<^verbatim>\<open>_get_first_terminal\<close>.
\<close>

fun active_terminal :: "'p widget \<Rightarrow> 'p widget option" where
  "active_terminal (SplitContainer i ori pos ac c1 c2) =
     (case ac of
        Some First \<Rightarrow>
          (case c1 of
             Some w \<Rightarrow> if is_terminal w then Some w else active_terminal w
           | None \<Rightarrow> get_first_terminal (SplitContainer i ori pos ac c1 c2))
      | Some Second \<Rightarrow>
          (case c2 of
             Some w \<Rightarrow> if is_terminal w then Some w else active_terminal w
           | None \<Rightarrow> get_first_terminal (SplitContainer i ori pos ac c1 c2))
      | None \<Rightarrow> get_first_terminal (SplitContainer i ori pos ac c1 c2))"
| "active_terminal (TerminalPage i p) = None"

text \<open>\<^verbatim>\<open>get_all_terminals\<close> with \<^verbatim>\<open>_collect_terminals\<close>: child1 before child2, depth first.\<close>

fun collect_terminals :: "'p widget \<Rightarrow> 'p widget list \<Rightarrow> 'p widget list" where
  "collect_terminals (SplitContainer i ori pos ac c1 c2) result =
     (let result1 = (case c1 of
                       None \<Rightarrow> result
                     | Some child \<Rightarrow>
                         if is_terminal child then result @ [child]
                         else collect_terminals child result)
      in (case c2 of
            None \<Rightarrow> result1
          | Some child \<Rightarrow>
              if is_terminal child then result1 @ [child]
              else collect_terminals child result1))"
| "collect_terminals (TerminalPage i p) result = result"

definition get_all_terminals :: "'p widget \<Rightarrow> 'p widget list" where
  "get_all_terminals s = collect_terminals s []"

text \<open>\<^verbatim>\<open>replace_child(old_child, new_child)\<close>.\<close>

definition replace_child :: "'p widget \<Rightarrow> 'p widget \<Rightarrow> 'p widget \<Rightarrow> 'p widget" where
  "replace_child s old_child new_child =
     (if same_obj (Some old_child) (get_child1 s)
      then pack1 (paned_remove s old_child) new_child
      else pack2 (paned_remove s old_child) new_child)"

subsection \<open>Collapsing splits that lost children\<close>

text \<open>
  \<^verbatim>\<open>_collapse_split_recursive(split)\<close> returns the widget that stands for the split
  afterwards, or null. The widgets are mutated in place; here the returned value carries
  the state after the call, so the slot of a nested split is refilled with the result
  also when the result is the same object as before. When the result is another object,
  the source removes the nested split from its slot (which resets \<^verbatim>\<open>_active_child\<close> if it
  was the focus child) and packs the result, if any, into the emptied slot.
  \<open>collapse_finish\<close> is the body of the routine after the two recursive calls: \<open>child1\<close>
  and \<open>child2\<close> are the local variables of the source after the two blocks.
\<close>

definition collapse_finish ::
  "obj \<Rightarrow> int \<Rightarrow> real \<Rightarrow> side option \<Rightarrow> 'p widget option \<Rightarrow> 'p widget option \<Rightarrow>
   'p widget option \<Rightarrow> 'p widget option \<Rightarrow> 'p widget option" where
  "collapse_finish i ori pos ac c1 c2 child1 child2 =
     (let ac1 = (if \<not> same_obj child1 c1 \<and> ac = Some First then None else ac);
          ac2 = (if \<not> same_obj child2 c2 \<and> ac1 = Some Second then None else ac1)
      in if child1 \<noteq> None \<and> child2 \<noteq> None
         then Some (SplitContainer i ori pos ac2 child1 child2)
         else if child1 \<noteq> None then child1
         else if child2 \<noteq> None then child2
         else None)"

fun collapse_split_recursive :: "'p widget \<Rightarrow> 'p widget option" where
  "collapse_split_recursive (SplitContainer i ori pos ac c1 c2) =
     collapse_finish i ori pos ac c1 c2
       (case c1 of
          Some (SplitContainer j o1 p1 a1 x1 y1) \<Rightarrow>
            collapse_split_recursive (SplitContainer j o1 p1 a1 x1 y1)
        | _ \<Rightarrow> c1)
       (case c2 of
          Some (SplitContainer j o2 p2 a2 x2 y2) \<Rightarrow>
            collapse_split_recursive (SplitContainer j o2 p2 a2 x2 y2)
        | _ \<Rightarrow> c2)"
| "collapse_split_recursive (TerminalPage i p) = Some (TerminalPage i p)"

text \<open>A tree in which every split has both children.\<close>

fun fully_populated :: "'p widget \<Rightarrow> bool" where
  "fully_populated (TerminalPage i p) = True"
| "fully_populated (SplitContainer i ori pos ac c1 c2) =
     (case c1 of
        None \<Rightarrow> False
      | Some a \<Rightarrow>
         (case c2 of
            None \<Rightarrow> False
          | Some b \<Rightarrow> fully_populated a \<and> fully_populated b))"

subsection \<open>Persisted records\<close>

text \<open>
  A persisted record is a \<^verbatim>\<open>GLib.Variant\<close> of type \<^verbatim>\<open>a{sv}\<close>: a dictionary from strings to
  variants. \<^verbatim>\<open>GLib.VariantDict\<close> gives \<^verbatim>\<open>lookup(key, 's')\<close>, which is null unless the key is
  present with a string value (likewise \<^verbatim>\<open>'i'\<close> and \<^verbatim>\<open>'d'\<close>), \<^verbatim>\<open>lookup_value(key, a{sv})\<close>,
  which is null unless the key is present with a dictionary value, and \<^verbatim>\<open>insert_value\<close>,
  which replaces the value of a key that is already there.
\<close>

datatype variant =
    VString string
  | VInt32 int
  | VDouble real
  | VDict "(string \<times> variant) list"

type_synonym vdict = "(string \<times> variant) list"

definition lookup_s :: "vdict \<Rightarrow> string \<Rightarrow> string option" where
  "lookup_s d k = (case map_of d k of Some (VString s) \<Rightarrow> Some s | _ \<Rightarrow> None)"

definition lookup_i :: "vdict \<Rightarrow> string \<Rightarrow> int option" where
  "lookup_i d k = (case map_of d k of Some (VInt32 n) \<Rightarrow> Some n | _ \<Rightarrow> None)"

definition lookup_d :: "vdict \<Rightarrow> string \<Rightarrow> real option" where
  "lookup_d d k = (case map_of d k of Some (VDouble x) \<Rightarrow> Some x | _ \<Rightarrow> None)"

definition lookup_value :: "vdict \<Rightarrow> string \<Rightarrow> vdict option" where
  "lookup_value d k = (case map_of d k of Some (VDict e) \<Rightarrow> Some e | _ \<Rightarrow> None)"

definition insert_value :: "string \<Rightarrow> variant \<Rightarrow> vdict \<Rightarrow> vdict" where
  "insert_value k v d = AList.update k v d"

text \<open>
  \<^verbatim>\<open>serialize_state\<close> of a split and \<^verbatim>\<open>_serialize_node\<close>. The state of a terminal page is
  serialized by the page itself (\<^verbatim>\<open>child.serialize_state()\<close>), a collaborator outside the
  layout code: it is the parameter \<open>page_serialize\<close>.
\<close>

fun serialize_state :: "('p \<Rightarrow> vdict) \<Rightarrow> 'p widget \<Rightarrow> vdict"
  and serialize_node :: "('p \<Rightarrow> vdict) \<Rightarrow> 'p widget \<Rightarrow> vdict option" where
  "serialize_state page_serialize (SplitContainer i ori pos ac c1 c2) =
     (let properties = insert_value ''split-position'' (VDouble pos)
                         (insert_value ''orientation'' (VInt32 ori)
                           (insert_value ''type'' (VString ''split'') []));
          properties1 =
            (case c1 of
               None \<Rightarrow> properties
             | Some child1 \<Rightarrow>
                 (case serialize_node page_serialize child1 of
                    None \<Rightarrow> properties
                  | Some data \<Rightarrow> insert_value ''first'' (VDict data) properties))
      in (case c2 of
            None \<Rightarrow> properties1
          | Some child2 \<Rightarrow>
              (case serialize_node page_serialize child2 of
                 None \<Rightarrow> properties1
               | Some data \<Rightarrow> insert_value ''second'' (VDict data) properties1)))"
| "serialize_state page_serialize (TerminalPage i p) = page_serialize p"
| "serialize_node page_serialize (TerminalPage i p) =
     Some (insert_value ''type'' (VString ''terminal'') (page_serialize p))"
| "serialize_node page_serialize (SplitContainer i ori pos ac c1 c2) =
     Some (serialize_state page_serialize (SplitContainer i ori pos ac c1 c2))"

text \<open>
  \<^verbatim>\<open>SplitContainer.deserialize_state\<close> and \<^verbatim>\<open>_deserialize_node\<close>. Every \<^verbatim>\<open>new\<close> makes a fresh
  object: the next unused identity is passed in and the first unused one afterwards is
  returned with the result. \<^verbatim>\<open>create_terminal\<close> is the factory of the caller; its
  parameter here gives the state of the page it builds from a record. A new split has
  \<^verbatim>\<open>_split_position = 0.5\<close> and \<^verbatim>\<open>_active_child = null\<close>. The deferred
  \<^verbatim>\<open>_apply_split_position\<close> moves the pixel position of the paned only.
\<close>

lemma size_lookup_value:
  "lookup_value d k = Some e \<Longrightarrow>
   size_list (size_prod (\<lambda>_. 0) size) e < size_list (size_prod (\<lambda>_. 0) size) d"
  unfolding lookup_value_def
  by (induction d) (auto split: if_splits option.splits variant.splits)

function deserialize_state :: "(vdict \<Rightarrow> 'p) \<Rightarrow> obj \<Rightarrow> vdict \<Rightarrow> 'p widget option \<times> obj"
  and deserialize_node :: "(vdict \<Rightarrow> 'p) \<Rightarrow> obj \<Rightarrow> vdict \<Rightarrow> 'p widget option \<times> obj" where
  "deserialize_state create_terminal n d =
     (if lookup_s d ''type'' \<noteq> Some ''split'' then (None, n)
      else
        (let ori = (case lookup_i d ''orientation'' of Some k \<Rightarrow> k | None \<Rightarrow> HORIZONTAL);
             position = lookup_d d ''split-position'';
             r1 = (case lookup_value d ''first'' of
                     None \<Rightarrow> (None, Suc n)
                   | Some first_data \<Rightarrow> deserialize_node create_terminal (Suc n) first_data);
             r2 = (case lookup_value d ''second'' of
                     None \<Rightarrow> (None, snd r1)
                   | Some second_data \<Rightarrow> deserialize_node create_terminal (snd r1) second_data)
         in (Some (SplitContainer n ori (case position of Some x \<Rightarrow> x | None \<Rightarrow> 0.5) None
                     (fst r1) (fst r2)), snd r2)))"
| "deserialize_node create_terminal n d =
     (if lookup_s d ''type'' = Some ''terminal'' then
        (Some (TerminalPage n (create_terminal d)), Suc n)
      else if lookup_s d ''type'' = Some ''split'' then
        deserialize_state create_terminal n d
      else (None, n))"
  by pat_completeness auto
termination
  apply (relation "measure (\<lambda>x. case x of
            Inl (c, n, d) \<Rightarrow> 2 * size_list (size_prod (\<lambda>_. 0) size) d
          | Inr (c, n, d) \<Rightarrow> 2 * size_list (size_prod (\<lambda>_. 0) size) d + 1)")
     apply (auto dest: size_lookup_value)
  done

declare deserialize_state.simps [simp del]
declare deserialize_node.simps [simp del]

subsection \<open>Searching and rewriting the tree\<close>

text \<open>The identities of all widgets of a subtree, the topmost first.\<close>

fun widget_ids :: "'p widget \<Rightarrow> obj list" where
  "widget_ids (TerminalPage i p) = [i]"
| "widget_ids (SplitContainer i ori pos ac c1 c2) =
     i # (case c1 of None \<Rightarrow> [] | Some a \<Rightarrow> widget_ids a)
       @ (case c2 of None \<Rightarrow> [] | Some b \<Rightarrow> widget_ids b)"

definition in_slot :: "obj \<Rightarrow> 'p widget option \<Rightarrow> bool" where
  "in_slot x c = (case c of None \<Rightarrow> False | Some w \<Rightarrow> x \<in> set (widget_ids w))"

definition first_found :: "'a option \<Rightarrow> 'a option \<Rightarrow> 'a option" where
  "first_found a b = (case a of Some found \<Rightarrow> Some found | None \<Rightarrow> b)"

text \<open>
  \<^verbatim>\<open>_find_parent_split_recursive(split, child)\<close>: child1 is searched before child2. The
  source returns a reference to the split it found and later calls methods on it, which
  mutate that object where it sits in the tree. A reference into the tree is kept here
  as the way from the top (the slots to follow) together with the split found there.
\<close>

type_synonym path = "side list"

definition below :: "side \<Rightarrow> (path \<times> 'a) option \<Rightarrow> (path \<times> 'a) option" where
  "below sd r = (case r of None \<Rightarrow> None | Some (pth, g) \<Rightarrow> Some (sd # pth, g))"

fun find_parent_split_recursive :: "'p widget \<Rightarrow> 'p widget \<Rightarrow> (path \<times> 'p widget) option" where
  "find_parent_split_recursive (SplitContainer i ori pos ac c1 c2) child =
     (if same_obj c1 (Some child) \<or> same_obj c2 (Some child)
      then Some ([], SplitContainer i ori pos ac c1 c2)
      else first_found
             (case c1 of
                Some (SplitContainer j o1 p1 a1 x1 y1) \<Rightarrow>
                  below First (find_parent_split_recursive (SplitContainer j o1 p1 a1 x1 y1) child)
              | _ \<Rightarrow> None)
             (case c2 of
                Some (SplitContainer j o2 p2 a2 x2 y2) \<Rightarrow>
                  below Second (find_parent_split_recursive (SplitContainer j o2 p2 a2 x2 y2) child)
              | _ \<Rightarrow> None))"
| "find_parent_split_recursive (TerminalPage i p) child = None"

text \<open>\<open>update_at pth f\<close> applies the mutation \<open>f\<close> to the widget that sits at \<open>pth\<close>.\<close>

fun update_at :: "path \<Rightarrow> ('p widget \<Rightarrow> 'p widget) \<Rightarrow> 'p widget \<Rightarrow> 'p widget" where
  "update_at [] f w = f w"
| "update_at (sd # pth) f (TerminalPage i p) = TerminalPage i p"
| "update_at (First # pth) f (SplitContainer i ori pos ac c1 c2) =
     SplitContainer i ori pos ac
       (case c1 of None \<Rightarrow> None | Some a \<Rightarrow> Some (update_at pth f a)) c2"
| "update_at (Second # pth) f (SplitContainer i ori pos ac c1 c2) =
     SplitContainer i ori pos ac c1
       (case c2 of None \<Rightarrow> None | Some b \<Rightarrow> Some (update_at pth f b))"

text \<open>
  GTK: \<^verbatim>\<open>widget.destroy()\<close> takes the widget out of the slot of its parent. The slot is
  emptied with \<open>paned_remove\<close>, which also resets the focus child.
\<close>

fun detach :: "'p widget \<Rightarrow> 'p widget \<Rightarrow> 'p widget" where
  "detach w (TerminalPage i p) = TerminalPage i p"
| "detach w (SplitContainer i ori pos ac c1 c2) =
     (if same_obj c1 (Some w) \<or> same_obj c2 (Some w)
      then paned_remove (SplitContainer i ori pos ac c1 c2) w
      else SplitContainer i ori pos ac
             (case c1 of None \<Rightarrow> None | Some a \<Rightarrow> Some (detach w a))
             (case c2 of None \<Rightarrow> None | Some b \<Rightarrow> Some (detach w b)))"

text \<open>A tree with all focus marks cleared.\<close>

fun forget_focus :: "'p widget \<Rightarrow> 'p widget" where
  "forget_focus (TerminalPage i p) = TerminalPage i p"
| "forget_focus (SplitContainer i ori pos ac c1 c2) =
     SplitContainer i ori pos None
       (case c1 of None \<Rightarrow> None | Some a \<Rightarrow> Some (forget_focus a))
       (case c2 of None \<Rightarrow> None | Some b \<Rightarrow> Some (forget_focus b))"

text \<open>
  GTK keeps the focus child of every container on the chain from the window down to the
  widget that holds the focus, and of no other container. \<^verbatim>\<open>grab_focus()\<close> on a widget
  first emits \<^verbatim>\<open>set-focus-child\<close> with null on the ancestors of the widget that held the
  focus, from its parent up to the common ancestor with the new widget, and then emits
  \<^verbatim>\<open>set-focus-child\<close> on every ancestor of the new widget, from the parent upwards, each
  time with the child that leads to it. With the handlers \<^verbatim>\<open>_on_focus_child_change\<close> of
  the splits, the marks are afterwards set on the way to the widget \<open>x\<close> and cleared
  everywhere else, also inside \<open>x\<close> when \<open>x\<close> is a split that takes the focus itself.
\<close>

fun set_focus_path :: "obj \<Rightarrow> 'p widget \<Rightarrow> 'p widget" where
  "set_focus_path x (TerminalPage i p) = TerminalPage i p"
| "set_focus_path x (SplitContainer i ori pos ac c1 c2) =
     (if i = x then forget_focus (SplitContainer i ori pos ac c1 c2)
      else if in_slot x c1 then
        SplitContainer i ori pos (Some First)
          (case c1 of None \<Rightarrow> None | Some a \<Rightarrow> Some (set_focus_path x a))
          (case c2 of None \<Rightarrow> None | Some b \<Rightarrow> Some (forget_focus b))
      else if in_slot x c2 then
        SplitContainer i ori pos (Some Second)
          (case c1 of None \<Rightarrow> None | Some a \<Rightarrow> Some (forget_focus a))
          (case c2 of None \<Rightarrow> None | Some b \<Rightarrow> Some (set_focus_path x b))
      else forget_focus (SplitContainer i ori pos ac c1 c2))"

text \<open>
  The setter of \<^verbatim>\<open>split_position\<close> clamps the fraction to the interval from 0 to 1.
  \<^verbatim>\<open>_on_paned_position_changed\<close> runs when the user drags the divider. When it does not
  return at its guards (a position update in progress, no position applied yet, an
  empty range), the fraction \<open>normalized\<close>, which it computes from the pixel geometry of
  the paned, replaces the stored one when the two differ by more than 0.001.
\<close>

fun set_split_position :: "'p widget \<Rightarrow> real \<Rightarrow> 'p widget" where
  "set_split_position (SplitContainer i ori pos ac c1 c2) v =
     SplitContainer i ori (max 0 (min 1 v)) ac c1 c2"
| "set_split_position (TerminalPage i p) v = TerminalPage i p"

fun on_paned_position_changed :: "'p widget \<Rightarrow> real \<Rightarrow> 'p widget" where
  "on_paned_position_changed (SplitContainer i ori pos ac c1 c2) normalized =
     (if \<bar>normalized - pos\<bar> > 0.001
      then SplitContainer i ori normalized ac c1 c2
      else SplitContainer i ori pos ac c1 c2)"
| "on_paned_position_changed (TerminalPage i p) normalized = TerminalPage i p"

section \<open>The tab content container\<close>

text \<open>
  The fields of \<^verbatim>\<open>TabContentContainer\<close> that the layout code reads and writes
  (\<^verbatim>\<open>_content\<close>, \<^verbatim>\<open>_active_terminal\<close>, \<^verbatim>\<open>_restructuring\<close>, \<^verbatim>\<open>_collapse_idle\<close> as
  "an idle callback is pending", \<^verbatim>\<open>_destroyed\<close>), and what the operations do to the
  world around the container: the next unused object identity, the widgets on which
  \<^verbatim>\<open>destroy()\<close> has run and the terminals on which \<^verbatim>\<open>close()\<close> has run. Signal emissions
  (\<^verbatim>\<open>session-update\<close>, \<^verbatim>\<open>notify\<close>), the title binding and \<^verbatim>\<open>set_is_split\<close> on the
  pages do not touch the tree and are left out.
\<close>

datatype error = TypeError

record 'p container =
  c_content :: "'p widget option"
  c_active_terminal :: "'p widget option"
  c_restructuring :: bool
  c_collapse_idle :: bool
  c_destroyed :: bool
  next_obj :: obj
  destroyed_objs :: "obj list"
  closed_objs :: "obj list"

definition new_container :: "obj \<Rightarrow> 'p container" where
  "new_container n =
     \<lparr>c_content = None, c_active_terminal = None, c_restructuring = False,
      c_collapse_idle = False, c_destroyed = False, next_obj = n,
      destroyed_objs = [], closed_objs = []\<rparr>"

definition is_split :: "'p container \<Rightarrow> bool" where
  "is_split c = (case c_content c of None \<Rightarrow> False | Some w \<Rightarrow> is_split_container w)"

definition container_get_all_terminals :: "'p container \<Rightarrow> 'p widget list" where
  "container_get_all_terminals c =
     (case c_content c of
        None \<Rightarrow> []
      | Some w \<Rightarrow> if is_terminal w then [w] else get_all_terminals w)"

text \<open>
  \<^verbatim>\<open>_set_active_terminal(terminal)\<close> returns early when the field already holds that
  object; in both cases the field refers to \<open>terminal\<close> afterwards.
\<close>

definition set_active_terminal :: "'p container \<Rightarrow> 'p widget option \<Rightarrow> 'p container" where
  "set_active_terminal c terminal = c\<lparr>c_active_terminal := terminal\<rparr>"

definition update_active_terminal :: "'p container \<Rightarrow> 'p container" where
  "update_active_terminal c =
     set_active_terminal c
       (case c_content c of
          None \<Rightarrow> None
        | Some w \<Rightarrow> if is_terminal w then Some w else active_terminal w)"

definition set_terminal :: "'p container \<Rightarrow> 'p widget \<Rightarrow> 'p container" where
  "set_terminal c page = set_active_terminal (c\<lparr>c_content := Some page\<rparr>) (Some page)"

text \<open>
  \<^verbatim>\<open>grab_focus()\<close> on a widget below the container: the splits record their focus child
  as described for \<open>set_focus_path\<close>, then the handler of \<^verbatim>\<open>set-focus-child\<close> of the
  container runs \<^verbatim>\<open>_update_active_terminal\<close>. A widget outside the tree of the container
  reaches neither. (When the widget holds the focus already GTK emits nothing; the marks
  are then on the way to it as well.)
\<close>

definition grab_focus :: "'p container \<Rightarrow> 'p widget \<Rightarrow> 'p container" where
  "grab_focus c w =
     (case c_content c of
        None \<Rightarrow> c
      | Some tree \<Rightarrow>
          if obj_id w \<in> set (widget_ids tree)
          then update_active_terminal (c\<lparr>c_content := Some (set_focus_path (obj_id w) tree)\<rparr>)
          else c)"

definition find_parent_split :: "'p container \<Rightarrow> 'p widget \<Rightarrow> (path \<times> 'p widget) option" where
  "find_parent_split c child =
     (case c_content c of
        None \<Rightarrow> None
      | Some tree \<Rightarrow>
          if \<not> is_split_container tree then None
          else find_parent_split_recursive tree child)"

text \<open>
  \<^verbatim>\<open>split(terminal, orientation)\<close>. \<open>new_state\<close> is the state of the page that
  \<^verbatim>\<open>_create_terminal()\<close> builds. The new page is created first, the new split second.
  In the source the new split is put into the slot of its parent before its own two
  slots are filled; the split is a fresh object, so filling it first gives the same tree.
\<close>

definition split_op :: "'p \<Rightarrow> 'p container \<Rightarrow> 'p widget \<Rightarrow> int \<Rightarrow> 'p container" where
  "split_op new_state c terminal ori =
     (let n = next_obj c;
          new_terminal = TerminalPage n new_state;
          new_split = SplitContainer (Suc n) ori 0.5 None None None;
          filled = pack2 (pack1 new_split terminal) new_terminal;
          c1 = c\<lparr>c_restructuring := True, next_obj := Suc (Suc n)\<rparr>
      in if same_obj (c_content c) (Some terminal) then
           (grab_focus (c1\<lparr>c_content := Some filled\<rparr>) new_terminal)
             \<lparr>c_restructuring := False\<rparr>
         else if is_split c then
           (case find_parent_split c terminal of
              Some (at_parent, parent_split) \<Rightarrow>
                (grab_focus
                   (c1\<lparr>c_content :=
                         map_option
                           (update_at at_parent (\<lambda>s. replace_child s terminal filled))
                           (c_content c)\<rparr>)
                   new_terminal)
                  \<lparr>c_restructuring := False\<rparr>
            | None \<Rightarrow> c1\<lparr>c_restructuring := False\<rparr>)
         else (grab_focus c1 new_terminal)\<lparr>c_restructuring := False\<rparr>)"

text \<open>
  \<^verbatim>\<open>destroy()\<close> on a page while \<^verbatim>\<open>_restructuring\<close> is set: GTK takes the page out of its
  parent and the handler of \<^verbatim>\<open>destroy\<close> returns at once.
\<close>

definition widget_destroy :: "'p container \<Rightarrow> 'p widget \<Rightarrow> 'p container" where
  "widget_destroy c t =
     c\<lparr>c_content := map_option (detach t) (c_content c),
       destroyed_objs := destroyed_objs c @ [obj_id t]\<rparr>"

text \<open>
  \<^verbatim>\<open>unsplit()\<close>. With no active terminal, \<^verbatim>\<open>t !== active\<close> holds for every terminal of
  the tree, so all of them are destroyed; the tree is removed and \<^verbatim>\<open>_content\<close> is set
  to null; then \<^verbatim>\<open>active.hexpand = true\<close> is a property write on null and throws. The
  \<^verbatim>\<open>finally\<close> block clears \<^verbatim>\<open>_restructuring\<close>, and the exception leaves the container
  in that state.
\<close>

definition unsplit :: "'p container \<Rightarrow> (error \<times> 'p container) + 'p container" where
  "unsplit c =
     (if \<not> is_split c then Inr c
      else
        (let active = c_active_terminal c;
             all = container_get_all_terminals c;
             c1 = foldl (\<lambda>s t. if \<not> same_obj (Some t) active then widget_destroy s t else s)
                    (c\<lparr>c_restructuring := True\<rparr>) all
         in (case active of
               None \<Rightarrow> Inl (TypeError, c1\<lparr>c_content := None, c_restructuring := False\<rparr>)
             | Some a \<Rightarrow>
                 Inr ((grab_focus (c1\<lparr>c_content := Some a\<rparr>) a)\<lparr>c_restructuring := False\<rparr>))))"

text \<open>
  \<^verbatim>\<open>collapse_terminal(terminal)\<close>. The sibling is taken out of the parent split first;
  that split leaves the tree with the terminal still in it, and the search for the
  grandparent compares the children of splits above it only, so it is run on the tree as
  it was.
\<close>

definition collapse_terminal :: "'p container \<Rightarrow> 'p widget \<Rightarrow> 'p container" where
  "collapse_terminal c terminal =
     (if \<not> is_split c then c
      else
        (case find_parent_split c terminal of
           None \<Rightarrow> c
         | Some (at_parent, parent_split) \<Rightarrow>
            (case (if same_obj (get_child1 parent_split) (Some terminal)
                   then get_child2 parent_split else get_child1 parent_split) of
               None \<Rightarrow> c
             | Some sibling \<Rightarrow>
                (let c1 = c\<lparr>c_restructuring := True\<rparr>;
                     c2 =
                       (if same_obj (Some parent_split) (c_content c)
                        then c1\<lparr>c_content := Some sibling\<rparr>
                        else
                          (case find_parent_split c parent_split of
                             Some (at_grandparent, grandparent) \<Rightarrow>
                               c1\<lparr>c_content :=
                                     map_option
                                       (update_at at_grandparent
                                          (\<lambda>g. replace_child g parent_split sibling))
                                       (c_content c)\<rparr>
                           | None \<Rightarrow> c1))
                 in update_active_terminal
                      ((grab_focus c2 sibling)\<lparr>c_restructuring := False\<rparr>)))))"

text \<open>\<^verbatim>\<open>close_active_terminal()\<close>.\<close>

definition close_active_terminal :: "'p container \<Rightarrow> 'p container" where
  "close_active_terminal c =
     (if \<not> is_split c then c
      else
        (case c_active_terminal c of
           None \<Rightarrow> c
         | Some active \<Rightarrow>
            (let c1 = collapse_terminal (c\<lparr>c_restructuring := True\<rparr>) active
             in c1\<lparr>closed_objs := closed_objs c1 @ [obj_id active],
                   c_restructuring := False\<rparr>)))"

text \<open>\<^verbatim>\<open>adjust_split_position(delta)\<close>.\<close>

definition adjust_split_position :: "'p container \<Rightarrow> real \<Rightarrow> 'p container" where
  "adjust_split_position c delta =
     (if \<not> is_split c then c
      else
        (case c_active_terminal c of
           None \<Rightarrow> c
         | Some active \<Rightarrow>
            (case find_parent_split c active of
               Some (at_parent, parent) \<Rightarrow>
                 c\<lparr>c_content :=
                      map_option
                        (update_at at_parent
                           (\<lambda>target. set_split_position target (split_position target + delta)))
                        (c_content c)\<rparr>
             | None \<Rightarrow>
                 c\<lparr>c_content :=
                      map_option
                        (\<lambda>target. set_split_position target (split_position target + delta))
                        (c_content c)\<rparr>)))"

text \<open>
  \<^verbatim>\<open>this.destroy()\<close> on the container: the handler of \<^verbatim>\<open>destroy\<close> that \<^verbatim>\<open>_init\<close> connects
  sets \<^verbatim>\<open>_destroyed\<close> and removes a pending idle callback.
\<close>

definition container_destroy :: "'p container \<Rightarrow> 'p container" where
  "container_destroy c = c\<lparr>c_destroyed := True, c_collapse_idle := False\<rparr>"

text \<open>
  A page is destroyed from outside (its process exited): GTK takes it out of its parent,
  then the handler of \<^verbatim>\<open>destroy\<close> runs \<^verbatim>\<open>_on_terminal_destroyed\<close> unless
  \<^verbatim>\<open>_restructuring\<close> is set.
\<close>

definition on_terminal_destroyed :: "'p container \<Rightarrow> 'p container" where
  "on_terminal_destroyed c =
     (if c_destroyed c then c
      else if \<not> is_split c then
        container_destroy (set_active_terminal (c\<lparr>c_content := None\<rparr>) None)
      else if \<not> c_collapse_idle c then c\<lparr>c_collapse_idle := True\<rparr>
      else c)"

definition terminal_destroyed :: "'p container \<Rightarrow> 'p widget \<Rightarrow> 'p container" where
  "terminal_destroyed c page =
     (let c1 = widget_destroy c page
      in if c_restructuring c1 then c1 else on_terminal_destroyed c1)"

text \<open>\<^verbatim>\<open>_collapse_empty_splits()\<close> and the idle callback that runs it.\<close>

definition collapse_empty_splits :: "'p container \<Rightarrow> 'p container" where
  "collapse_empty_splits c =
     (case c_content c of
        None \<Rightarrow> c
      | Some tree \<Rightarrow>
          if \<not> is_split_container tree then c
          else
            (case collapse_split_recursive tree of
               None \<Rightarrow>
                 (container_destroy
                    (set_active_terminal (c\<lparr>c_restructuring := True, c_content := None\<rparr>) None))
                   \<lparr>c_restructuring := False\<rparr>
             | Some result \<Rightarrow>
                 update_active_terminal
                   ((grab_focus (c\<lparr>c_restructuring := True, c_content := Some result\<rparr>) result)
                      \<lparr>c_restructuring := False\<rparr>)))"

definition collapse_idle_callback :: "'p container \<Rightarrow> 'p container" where
  "collapse_idle_callback c =
     (if \<not> c_collapse_idle c then c
      else
        (let c1 = c\<lparr>c_collapse_idle := False\<rparr>
         in if \<not> c_destroyed c1 then collapse_empty_splits c1 else c1))"

text \<open>
  \<^verbatim>\<open>_close_tab()\<close>, which the close button of the tab label runs: with \<^verbatim>\<open>_restructuring\<close>
  set, \<^verbatim>\<open>destroy()\<close> runs on every terminal and then on the container. \<^verbatim>\<open>_content\<close> keeps
  referring to the tree, and \<^verbatim>\<open>_restructuring\<close> stays set.
\<close>

definition close_tab :: "'p container \<Rightarrow> 'p container" where
  "close_tab c =
     container_destroy
       (foldl widget_destroy (c\<lparr>c_restructuring := True\<rparr>) (container_get_all_terminals c))"

text \<open>
  \<^verbatim>\<open>serialize_state()\<close> of the container. The content has a parent while the container
  is alive: every operation that sets \<^verbatim>\<open>_content\<close> also adds the widget to the container,
  and destroying the container destroys and unparents its child.
\<close>

definition container_serialize_state :: "('p \<Rightarrow> vdict) \<Rightarrow> 'p container \<Rightarrow> vdict option" where
  "container_serialize_state page_serialize c =
     (case c_content c of
        None \<Rightarrow> None
      | Some w \<Rightarrow>
          if c_destroyed c then None
          else if is_terminal w
          then (case w of
                  TerminalPage i p \<Rightarrow>
                    Some (insert_value ''type'' (VString ''terminal'') (page_serialize p))
                | _ \<Rightarrow> None)
          else Some (serialize_state page_serialize w))"

text \<open>
  The static \<^verbatim>\<open>TabContentContainer.deserialize_state\<close>. \<open>page_deserialize\<close> is
  \<^verbatim>\<open>TerminalPage.deserialize_state\<close>, which builds the state of a page from a record.
\<close>

definition container_deserialize_state :: "(vdict \<Rightarrow> 'p) \<Rightarrow> obj \<Rightarrow> vdict \<Rightarrow> 'p container" where
  "container_deserialize_state page_deserialize n d =
     (if lookup_s d ''type'' = Some ''split'' then
        (case deserialize_state page_deserialize n d of
           (Some split, n') \<Rightarrow>
             update_active_terminal ((new_container n')\<lparr>c_content := Some split\<rparr>)
         | (None, n') \<Rightarrow> new_container n')
      else set_terminal (new_container (Suc n)) (TerminalPage n (page_deserialize d)))"

section \<open>Notions used to state the properties\<close>

text \<open>
  The shape of a tree: what remains when object identities and focus are forgotten, that
  is orientations, positions, the state of the page at every leaf, and which slots are
  filled.
\<close>

datatype 'p shape = Leaf 'p | Branch int real "'p shape option" "'p shape option"

fun shape_of :: "'p widget \<Rightarrow> 'p shape" where
  "shape_of (TerminalPage i p) = Leaf p"
| "shape_of (SplitContainer i ori pos ac c1 c2) =
     Branch ori pos (case c1 of None \<Rightarrow> None | Some a \<Rightarrow> Some (shape_of a))
                    (case c2 of None \<Rightarrow> None | Some b \<Rightarrow> Some (shape_of b))"

definition slot_shape :: "'p widget option \<Rightarrow> 'p shape option" where
  "slot_shape c = (case c of None \<Rightarrow> None | Some a \<Rightarrow> Some (shape_of a))"

text \<open>The recursive call of the collapse on the content of a slot, as one function.\<close>

definition collapse_slot :: "'p widget option \<Rightarrow> 'p widget option" where
  "collapse_slot c =
     (case c of
        Some (SplitContainer j o1 p1 a1 x1 y1) \<Rightarrow>
          collapse_split_recursive (SplitContainer j o1 p1 a1 x1 y1)
      | _ \<Rightarrow> c)"

text \<open>The two guarded calls of \<^verbatim>\<open>_deserialize_node\<close> in the deserializer, as one function.\<close>

definition deserialize_slot ::
  "(vdict \<Rightarrow> 'p) \<Rightarrow> obj \<Rightarrow> vdict option \<Rightarrow> 'p widget option \<times> obj" where
  "deserialize_slot create n data =
     (case data of None \<Rightarrow> (None, n) | Some x \<Rightarrow> deserialize_node create n x)"

text \<open>
  A page collaborator for concrete runs: the state of a page is its title, stored under
  the key \<^verbatim>\<open>title\<close>.
\<close>

definition title_serialize :: "string \<Rightarrow> vdict" where
  "title_serialize p = [(''title'', VString p)]"

definition title_deserialize :: "vdict \<Rightarrow> string" where
  "title_deserialize d = (case lookup_s d ''title'' of Some s \<Rightarrow> s | None \<Rightarrow> [])"

text \<open>The terminals of a tree in traversal order, the tree itself when it is a terminal.\<close>

fun leaves :: "'p widget \<Rightarrow> 'p widget list" where
  "leaves (TerminalPage i p) = [TerminalPage i p]"
| "leaves (SplitContainer i ori pos ac c1 c2) =
     (case c1 of None \<Rightarrow> [] | Some a \<Rightarrow> leaves a) @ (case c2 of None \<Rightarrow> [] | Some b \<Rightarrow> leaves b)"

text \<open>The widget that sits at the end of a way from the top, if the way exists.\<close>

fun subtree_at :: "path \<Rightarrow> 'p widget \<Rightarrow> 'p widget option" where
  "subtree_at [] w = Some w"
| "subtree_at (sd # pth) (TerminalPage i p) = None"
| "subtree_at (First # pth) (SplitContainer i ori pos ac c1 c2) =
     (case c1 of None \<Rightarrow> None | Some a \<Rightarrow> subtree_at pth a)"
| "subtree_at (Second # pth) (SplitContainer i ori pos ac c1 c2) =
     (case c2 of None \<Rightarrow> None | Some b \<Rightarrow> subtree_at pth b)"

text \<open>The tree with the widget at the end of a way replaced by another widget.\<close>

definition replace_at :: "path \<Rightarrow> 'p widget \<Rightarrow> 'p widget \<Rightarrow> 'p widget" where
  "replace_at pth new w = update_at pth (\<lambda>_. new) w"

text \<open>The search of \<^verbatim>\<open>_find_parent_split_recursive\<close> below one slot, as one function.\<close>

definition find_in_slot :: "side \<Rightarrow> 'p widget option \<Rightarrow> 'p widget \<Rightarrow> (path \<times> 'p widget) option" where
  "find_in_slot sd c child =
     (case c of
        Some (SplitContainer j o1 p1 a1 x1 y1) \<Rightarrow>
          below sd (find_parent_split_recursive (SplitContainer j o1 p1 a1 x1 y1) child)
      | _ \<Rightarrow> None)"

text \<open>The number of levels of splits.\<close>

fun height :: "'p widget \<Rightarrow> nat" where
  "height (TerminalPage i p) = 0"
| "height (SplitContainer i ori pos ac c1 c2) =
     Suc (max (case c1 of None \<Rightarrow> 0 | Some a \<Rightarrow> height a)
              (case c2 of None \<Rightarrow> 0 | Some b \<Rightarrow> height b))"

fun populated_shape :: "'p shape \<Rightarrow> bool" where
  "populated_shape (Leaf p) = True"
| "populated_shape (Branch ori pos a b) =
     (case a of None \<Rightarrow> False
      | Some x \<Rightarrow> (case b of None \<Rightarrow> False | Some y \<Rightarrow> populated_shape x \<and> populated_shape y))"

text \<open>
  A settled container: a destroyed container has no content; without content there is no
  active terminal; with content, every split of the tree has both children and the
  active terminal is a terminal of the tree.
\<close>

definition settled :: "'p container \<Rightarrow> bool" where
  "settled c \<longleftrightarrow>
     (c_destroyed c \<longrightarrow> c_content c = None) \<and>
     (c_content c = None \<longrightarrow> c_active_terminal c = None) \<and>
     (\<forall>w. c_content c = Some w \<longrightarrow>
        fully_populated w \<and>
        (\<exists>a. c_active_terminal c = Some a \<and> is_terminal a \<and> a \<in> set (leaves w)))"

text \<open>
  What holds of a container also while a deferred collapse is pending: a destroyed
  container has no content; without content there is no active terminal; the active
  terminal is a terminal page; and a container whose content is one terminal has that
  terminal as its active terminal.
\<close>

definition tidy :: "'p container \<Rightarrow> bool" where
  "tidy c \<longleftrightarrow>
     (c_destroyed c \<longrightarrow> c_content c = None) \<and>
     (c_content c = None \<longrightarrow> c_active_terminal c = None) \<and>
     (\<forall>a. c_active_terminal c = Some a \<longrightarrow> is_terminal a) \<and>
     (\<forall>w. c_content c = Some w \<longrightarrow> is_terminal w \<longrightarrow> c_active_terminal c = Some w)"

text \<open>
  A consistent container is not in the middle of a restructuring, is tidy, and is settled
  unless a deferred collapse is pending.
\<close>

definition consistent :: "'p container \<Rightarrow> bool" where
  "consistent c \<longleftrightarrow>
     \<not> c_restructuring c \<and> tidy c \<and> (\<not> c_collapse_idle c \<longrightarrow> settled c)"

text \<open>
  A tree in which every split has at least one child. An anchored container is like a
  settled one, with such a tree: a destroyed container has no content; without content
  there is no active terminal; with content there is an active terminal, and it is a
  terminal of the tree. A steady container is not in the middle of a restructuring, is
  tidy, and is anchored unless a deferred collapse is pending.
\<close>

fun inhabited :: "'p widget \<Rightarrow> bool" where
  "inhabited (TerminalPage i p) = True"
| "inhabited (SplitContainer i ori pos ac c1 c2) =
     ((c1 \<noteq> None \<or> c2 \<noteq> None)
      \<and> (case c1 of None \<Rightarrow> True | Some a \<Rightarrow> inhabited a)
      \<and> (case c2 of None \<Rightarrow> True | Some b \<Rightarrow> inhabited b))"

definition anchored :: "'p container \<Rightarrow> bool" where
  "anchored c \<longleftrightarrow>
     (c_destroyed c \<longrightarrow> c_content c = None) \<and>
     (c_content c = None \<longrightarrow> c_active_terminal c = None) \<and>
     (\<forall>w. c_content c = Some w \<longrightarrow>
        inhabited w \<and>
        (\<exists>a. c_active_terminal c = Some a \<and> is_terminal a \<and> a \<in> set (leaves w)))"


text \<open>
  A tree without the features that the user and GTK change without changing the layout:
  divider positions and focus marks.
\<close>

fun skeleton :: "'p widget \<Rightarrow> 'p widget" where
  "skeleton (TerminalPage i p) = TerminalPage i p"
| "skeleton (SplitContainer i ori pos ac c1 c2) =
     SplitContainer i ori 0 None
       (case c1 of None \<Rightarrow> None | Some a \<Rightarrow> Some (skeleton a))
       (case c2 of None \<Rightarrow> None | Some b \<Rightarrow> Some (skeleton b))"

text \<open>
  A well-formed split record has the type tag \<^verbatim>\<open>split\<close> and both children, each of which
  is a terminal record or a well-formed split record. A record is complete when it is
  not a split record (it is then taken for one terminal) or is a well-formed one.
\<close>

function well_formed_split :: "vdict \<Rightarrow> bool"
  and well_formed_node :: "vdict \<Rightarrow> bool" where
  "well_formed_split d =
     (if lookup_s d ''type'' \<noteq> Some ''split'' then False
      else (case lookup_value d ''first'' of
              None \<Rightarrow> False
            | Some first_data \<Rightarrow> well_formed_node first_data)
         \<and> (case lookup_value d ''second'' of
              None \<Rightarrow> False
            | Some second_data \<Rightarrow> well_formed_node second_data))"
| "well_formed_node d =
     (if lookup_s d ''type'' = Some ''terminal'' then True
      else if lookup_s d ''type'' = Some ''split'' then well_formed_split d
      else False)"
  by pat_completeness auto
termination
  apply (relation "measure (\<lambda>x. case x of
            Inl d \<Rightarrow> 2 * size_list (size_prod (\<lambda>_. 0) size) d
          | Inr d \<Rightarrow> 2 * size_list (size_prod (\<lambda>_. 0) size) d + 1)")
     apply (auto dest: size_lookup_value)
  done

declare well_formed_split.simps [simp del]
declare well_formed_node.simps [simp del]

definition complete_record :: "vdict \<Rightarrow> bool" where
  "complete_record d \<longleftrightarrow> (lookup_s d ''type'' = Some ''split'' \<longrightarrow> well_formed_split d)"

text \<open>
  A node record is known when \<^verbatim>\<open>_deserialize_node\<close> builds a widget from it. An inhabited
  split record has the type tag \<^verbatim>\<open>split\<close> and at least one child that is a known record,
  and each child that is a split record is inhabited. A record is an inhabited record
  when it is not a split record or is an inhabited one.
\<close>

definition known_node :: "vdict \<Rightarrow> bool" where
  "known_node d \<longleftrightarrow>
     lookup_s d ''type'' = Some ''terminal'' \<or> lookup_s d ''type'' = Some ''split''"

function inhabited_split :: "vdict \<Rightarrow> bool"
  and inhabited_node :: "vdict \<Rightarrow> bool" where
  "inhabited_split d =
     (if lookup_s d ''type'' \<noteq> Some ''split'' then False
      else ((case lookup_value d ''first'' of
               None \<Rightarrow> False
             | Some first_data \<Rightarrow> known_node first_data)
            \<or> (case lookup_value d ''second'' of
                 None \<Rightarrow> False
               | Some second_data \<Rightarrow> known_node second_data))
         \<and> (case lookup_value d ''first'' of
              None \<Rightarrow> True
            | Some first_data \<Rightarrow> inhabited_node first_data)
         \<and> (case lookup_value d ''second'' of
              None \<Rightarrow> True
            | Some second_data \<Rightarrow> inhabited_node second_data))"
| "inhabited_node d =
     (if lookup_s d ''type'' = Some ''split'' then inhabited_split d else True)"
  by pat_completeness auto
termination
  apply (relation "measure (\<lambda>x. case x of
            Inl d \<Rightarrow> 2 * size_list (size_prod (\<lambda>_. 0) size) d
          | Inr d \<Rightarrow> 2 * size_list (size_prod (\<lambda>_. 0) size) d + 1)")
     apply (auto dest: size_lookup_value)
  done

declare inhabited_split.simps [simp del]
declare inhabited_node.simps [simp del]

definition inhabited_record :: "vdict \<Rightarrow> bool" where
  "inhabited_record d \<longleftrightarrow> (lookup_s d ''type'' = Some ''split'' \<longrightarrow> inhabited_split d)"

text \<open>
  A record with a foreign record put under one key of the split record that is reached
  by a way from the top.
\<close>

fun slot_key :: "side \<Rightarrow> string" where
  "slot_key First = ''first''"
| "slot_key Second = ''second''"

fun slot_of :: "side \<Rightarrow> 'p widget \<Rightarrow> 'p widget option" where
  "slot_of First w = get_child1 w"
| "slot_of Second w = get_child2 w"

fun corrupt_at :: "path \<Rightarrow> side \<Rightarrow> vdict \<Rightarrow> vdict \<Rightarrow> vdict" where
  "corrupt_at [] sd bad d = insert_value (slot_key sd) (VDict bad) d"
| "corrupt_at (s # pth) sd bad d =
     (case lookup_value d (slot_key s) of
        None \<Rightarrow> d
      | Some e \<Rightarrow> insert_value (slot_key s) (VDict (corrupt_at pth sd bad e)) d)"

text \<open>
  The states a container goes through when the records it is restored from are taken
  from a set \<open>R\<close>. It starts empty or is restored from a record of \<open>R\<close>. A terminal is set
  on a live container; it is split, unsplit (returning or throwing), collapsed around a
  terminal, its active terminal is closed; a divider is moved by
  \<^verbatim>\<open>adjust_split_position\<close> or dragged; focus moves to some widget; GTK changes focus
  marks in any way; the handler of \<^verbatim>\<open>set-focus-child\<close> of the container runs; a page is
  destroyed from outside; the idle callback runs.
\<close>

inductive reachable_from :: "(vdict \<Rightarrow> bool) \<Rightarrow> 'p container \<Rightarrow> bool"
  for R :: "vdict \<Rightarrow> bool" where
  r_new: "reachable_from R (new_container n)"
| r_restore:
    "R d \<Longrightarrow> reachable_from R (container_deserialize_state page_deserialize n d)"
| r_set_terminal:
    "reachable_from R c \<Longrightarrow> \<not> c_destroyed c \<Longrightarrow> is_terminal page \<Longrightarrow>
     reachable_from R (set_terminal c page)"
| r_split:
    "reachable_from R c \<Longrightarrow> is_terminal terminal \<Longrightarrow>
     reachable_from R (split_op new_state c terminal ori)"
| r_unsplit:
    "reachable_from R c \<Longrightarrow> unsplit c = Inr c' \<Longrightarrow> reachable_from R c'"
| r_unsplit_throws:
    "reachable_from R c \<Longrightarrow> unsplit c = Inl (e, c') \<Longrightarrow> reachable_from R c'"
| r_collapse_terminal:
    "reachable_from R c \<Longrightarrow> reachable_from R (collapse_terminal c terminal)"
| r_close_active_terminal:
    "reachable_from R c \<Longrightarrow> reachable_from R (close_active_terminal c)"
| r_adjust_split_position:
    "reachable_from R c \<Longrightarrow> reachable_from R (adjust_split_position c delta)"
| r_divider_dragged:
    "reachable_from R c \<Longrightarrow>
     reachable_from R
       (c\<lparr>c_content :=
            map_option (update_at pth (\<lambda>s. on_paned_position_changed s normalized))
              (c_content c)\<rparr>)"
| r_focus:
    "reachable_from R c \<Longrightarrow> reachable_from R (grab_focus c w)"
| r_focus_marks:
    "reachable_from R c \<Longrightarrow> c_content c = Some t \<Longrightarrow> forget_focus t' = forget_focus t \<Longrightarrow>
     reachable_from R (c\<lparr>c_content := Some t'\<rparr>)"
| r_set_focus_child:
    "reachable_from R c \<Longrightarrow> reachable_from R (update_active_terminal c)"
| r_terminal_destroyed:
    "reachable_from R c \<Longrightarrow> reachable_from R (terminal_destroyed c page)"
| r_idle:
    "reachable_from R c \<Longrightarrow> reachable_from R (collapse_idle_callback c)"

text \<open>
  A tab restored from the record of a split whose first child is a split without children
  and whose second child is a terminal.
\<close>

definition restored_without_active :: "string container" where
  "restored_without_active =
     container_deserialize_state title_deserialize 0
       [(''type'', VString ''split''),
        (''first'', VDict [(''type'', VString ''split'')]),
        (''second'', VDict [(''type'', VString ''terminal''), (''title'', VString ''sh'')])]"

text \<open>
  A tab with three terminals: the top split is horizontal, its first child is a vertical
  split of terminals 0 and 1, its second child is terminal 2.
\<close>

definition scenario_tree :: "unit widget" where
  "scenario_tree =
     SplitContainer 3 HORIZONTAL 0.5 None
       (Some (SplitContainer 4 VERTICAL 0.5 None
                (Some (TerminalPage 0 ())) (Some (TerminalPage 1 ()))))
       (Some (TerminalPage 2 ()))"

definition scenario_container :: "unit container" where
  "scenario_container =
     (new_container 5)
       \<lparr>c_content := Some scenario_tree, c_active_terminal := Some (TerminalPage 0 ())\<rparr>"

text \<open>
  The record of Scenario E of the specification, with the title of a page as its state,
  and the tab restored from it.
\<close>

definition scenario_e_record :: vdict where
  "scenario_e_record =
     [(''type'', VString ''split''), (''orientation'', VInt32 0),
      (''split-position'', VDouble 0.5),
      (''first'', VDict [(''type'', VString ''terminal''), (''title'', VString ''a'')]),
      (''second'', VDict
         [(''type'', VString ''split''), (''orientation'', VInt32 1),
          (''split-position'', VDouble 0.3),
          (''first'', VDict [(''type'', VString ''terminal''), (''title'', VString ''b'')]),
          (''second'', VDict [(''type'', VString ''terminal''), (''title'', VString ''c'')])])]"

definition scenario_e_container :: "string container" where
  "scenario_e_container = container_deserialize_state title_deserialize 0 scenario_e_record"


definition with_empty_split :: "string container" where
  "with_empty_split =
     container_deserialize_state title_deserialize 0
       [(''type'', VString ''split''),
        (''first'', VDict [(''type'', VString ''terminal''), (''title'', VString ''a'')]),
        (''second'', VDict [(''type'', VString ''split'')])]"

section \<open>Properties\<close>

subsection \<open>Basic facts\<close>

lemma same_obj_refl [simp]: "same_obj x x"
  by (cases x) auto

lemma fully_populated_split:
  "fully_populated (SplitContainer i ori pos ac c1 c2) \<longleftrightarrow>
   (\<exists>a b. c1 = Some a \<and> c2 = Some b \<and> fully_populated a \<and> fully_populated b)"
  by (cases c1; cases c2) simp_all

lemma collapse_slot_None [simp]: "collapse_slot None = None"
  by (simp add: collapse_slot_def)

lemma collapse_slot_Some: "collapse_slot (Some a) = collapse_split_recursive a"
  by (cases a) (simp_all add: collapse_slot_def)

lemma collapse_unfold:
  "collapse_split_recursive (SplitContainer i ori pos ac c1 c2) =
     collapse_finish i ori pos ac c1 c2 (collapse_slot c1) (collapse_slot c2)"
  by (simp add: collapse_slot_def)

declare collapse_split_recursive.simps(1) [simp del]

lemma collapse_populated_id:
  "fully_populated w \<Longrightarrow> collapse_split_recursive w = Some w"
proof (induction w)
  case (TerminalPage i p)
  show ?case by simp
next
  case (SplitContainer i ori pos ac c1 c2)
  from SplitContainer.prems obtain a b where c: "c1 = Some a" "c2 = Some b"
    and pa: "fully_populated a" and pb: "fully_populated b"
    unfolding fully_populated_split by blast
  have ra: "collapse_slot c1 = c1"
    using SplitContainer.IH(1)[of a] c pa by (simp add: collapse_slot_Some)
  have rb: "collapse_slot c2 = c2"
    using SplitContainer.IH(2)[of b] c pb by (simp add: collapse_slot_Some)
  show ?case
    unfolding collapse_unfold ra rb
    by (simp add: collapse_finish_def c)
qed

lemma collapse_finish_populated:
  assumes "collapse_finish i ori pos ac c1 c2 r1 r2 = Some r"
    and "\<And>x. r1 = Some x \<Longrightarrow> fully_populated x"
    and "\<And>x. r2 = Some x \<Longrightarrow> fully_populated x"
  shows "fully_populated r"
  using assms
  by (cases r1; cases r2) (auto simp: collapse_finish_def Let_def split: if_splits)

lemma collapse_result_populated:
  "collapse_split_recursive w = Some r \<Longrightarrow> fully_populated r"
proof (induction w arbitrary: r)
  case (TerminalPage i p)
  then show ?case by auto
next
  case (SplitContainer i ori pos ac c1 c2)
  have p1: "fully_populated x" if "collapse_slot c1 = Some x" for x
  proof (cases c1)
    case None
    with that show ?thesis by simp
  next
    case (Some a)
    with that SplitContainer.IH(1)[of a x] show ?thesis
      by (simp add: collapse_slot_Some)
  qed
  have p2: "fully_populated x" if "collapse_slot c2 = Some x" for x
  proof (cases c2)
    case None
    with that show ?thesis by simp
  next
    case (Some a)
    with that SplitContainer.IH(2)[of a x] show ?thesis
      by (simp add: collapse_slot_Some)
  qed
  from SplitContainer.prems
  have "collapse_finish i ori pos ac c1 c2 (collapse_slot c1) (collapse_slot c2) = Some r"
    by (simp add: collapse_unfold)
  then show ?case
    using p1 p2 by (rule collapse_finish_populated)
qed

text \<open>The collapse is idempotent on every split: a second run changes nothing.\<close>

lemma collapse_idempotent:
  "collapse_split_recursive w = Some r \<Longrightarrow> collapse_split_recursive r = Some r"
  by (rule collapse_populated_id) (rule collapse_result_populated)

subsection \<open>The collapse on a fully populated tree\<close>

text \<open>
  C7. On a split whose tree has both children at every split, \<^verbatim>\<open>_collapse_split_recursive\<close>
  returns the split it was given, the same object with the same subtree: nothing is
  removed, repacked or refocused.
\<close>

theorem collapse_fully_populated_noop:
  "is_split_container s \<Longrightarrow> fully_populated s \<Longrightarrow> collapse_split_recursive s = Some s"
  by (rule collapse_populated_id)

theorem collapse_fully_populated_noop_witness:
  "is_split_container
     (SplitContainer 0 HORIZONTAL 0.5 None
        (Some (SplitContainer 1 VERTICAL 0.3 (Some First)
                 (Some (TerminalPage 2 ())) (Some (TerminalPage 3 ()))))
        (Some (TerminalPage 4 ())))
   \<and> fully_populated
     (SplitContainer 0 HORIZONTAL 0.5 None
        (Some (SplitContainer 1 VERTICAL 0.3 (Some First)
                 (Some (TerminalPage 2 ())) (Some (TerminalPage 3 ()))))
        (Some (TerminalPage 4 ())))
   \<and> collapse_split_recursive
     (SplitContainer 0 HORIZONTAL 0.5 None
        (Some (SplitContainer 1 VERTICAL 0.3 (Some First)
                 (Some (TerminalPage 2 ())) (Some (TerminalPage 3 ()))))
        (Some (TerminalPage 4 ())))
     = Some (SplitContainer 0 HORIZONTAL 0.5 None
        (Some (SplitContainer 1 VERTICAL 0.3 (Some First)
                 (Some (TerminalPage 2 ())) (Some (TerminalPage 3 ()))))
        (Some (TerminalPage 4 ())))"
  using collapse_fully_populated_noop
    [of "SplitContainer 0 HORIZONTAL 0.5 None
        (Some (SplitContainer 1 VERTICAL 0.3 (Some First)
                 (Some (TerminalPage 2 ())) (Some (TerminalPage 3 ()))))
        (Some (TerminalPage 4 ()))"]
  by simp

subsection \<open>Splitting a single terminal\<close>

text \<open>
  C4. A container holds the single terminal T1, which is its active terminal.
  \<^verbatim>\<open>split(T1, horizontal)\<close> makes the content a new split with horizontal orientation and
  position 0.5, T1 in the first slot and the newly created terminal T2 in the second.
  The container is split, T2 is the active terminal, and no \<^verbatim>\<open>destroy()\<close> or \<^verbatim>\<open>close()\<close>
  has run on any widget.
\<close>

theorem split_single_terminal:
  assumes "c_content c = Some (TerminalPage i p)"
    and "c_active_terminal c = Some (TerminalPage i p)"
    and "i < next_obj c"
  shows "let c' = split_op new_state c (TerminalPage i p) HORIZONTAL;
             T2 = TerminalPage (next_obj c) new_state
         in c_content c' =
              Some (SplitContainer (Suc (next_obj c)) HORIZONTAL 0.5 (Some Second)
                      (Some (TerminalPage i p)) (Some T2))
            \<and> is_split c'
            \<and> c_active_terminal c' = Some T2
            \<and> destroyed_objs c' = destroyed_objs c
            \<and> closed_objs c' = closed_objs c"
  using assms
  by (simp add: split_op_def Let_def is_split_def grab_focus_def in_slot_def
      update_active_terminal_def set_active_terminal_def)

theorem split_single_terminal_witness:
  "c_content (set_terminal (new_container 1) (TerminalPage 0 ())) = Some (TerminalPage 0 ())
   \<and> c_active_terminal (set_terminal (new_container 1) (TerminalPage 0 ()))
       = Some (TerminalPage 0 ())
   \<and> 0 < next_obj (set_terminal (new_container 1) (TerminalPage 0 ()))
   \<and> c_content (split_op () (set_terminal (new_container 1) (TerminalPage 0 ()))
                  (TerminalPage 0 ()) HORIZONTAL)
       = Some (SplitContainer 2 HORIZONTAL 0.5 (Some Second)
                 (Some (TerminalPage 0 ())) (Some (TerminalPage 1 ())))
   \<and> c_active_terminal (split_op () (set_terminal (new_container 1) (TerminalPage 0 ()))
                          (TerminalPage 0 ()) HORIZONTAL)
       = Some (TerminalPage 1 ())"
  using split_single_terminal
    [of "set_terminal (new_container 1) (TerminalPage 0 ())" 0 "()" "()"]
  by (simp add: set_terminal_def new_container_def set_active_terminal_def Let_def)

subsection \<open>A split request that finds no parent\<close>

text \<open>
  C9. The content is a split, the given terminal is another object than that split, and
  \<^verbatim>\<open>_find_parent_split\<close> finds no split that has the terminal as a child. Then
  \<^verbatim>\<open>split(terminal, orientation)\<close> returns without an exception and leaves the tree, the
  active terminal and every other field as they were; only the two objects it created
  beforehand are used up, and \<^verbatim>\<open>_restructuring\<close> is cleared by the \<^verbatim>\<open>finally\<close> block.
\<close>

theorem split_declined:
  assumes "c_content c = Some tree" and "is_split_container tree"
    and "obj_id terminal \<noteq> obj_id tree"
    and "find_parent_split c terminal = None"
  shows "split_op new_state c terminal ori =
           c\<lparr>c_restructuring := False, next_obj := Suc (Suc (next_obj c))\<rparr>"
  using assms by (simp add: split_op_def Let_def is_split_def)

theorem split_declined_witness:
  "split_op ()
     ((new_container 3)
        \<lparr>c_content := Some (SplitContainer 0 HORIZONTAL 0.5 None
                             (Some (TerminalPage 1 ())) (Some (TerminalPage 2 ())))\<rparr>)
     (TerminalPage 7 ()) VERTICAL
   = (new_container 5)
        \<lparr>c_content := Some (SplitContainer 0 HORIZONTAL 0.5 None
                             (Some (TerminalPage 1 ())) (Some (TerminalPage 2 ())))\<rparr>"
  using split_declined
    [of "(new_container 3)
        \<lparr>c_content := Some (SplitContainer 0 HORIZONTAL 0.5 None
                             (Some (TerminalPage 1 ())) (Some (TerminalPage 2 ())))\<rparr>"
        "SplitContainer 0 HORIZONTAL 0.5 None
                             (Some (TerminalPage 1 ())) (Some (TerminalPage 2 ()))"
        "TerminalPage 7 ()" "()" VERTICAL]
  by (simp add: new_container_def find_parent_split_def first_found_def)

subsection \<open>Closing the active terminal of an unsplit tab\<close>



subsection \<open>Lookups in serialized records\<close>

lemma lookup_insert_value:
  "lookup_s (insert_value k v d) k' =
     (if k' = k then (case v of VString s \<Rightarrow> Some s | _ \<Rightarrow> None) else lookup_s d k')"
  "lookup_i (insert_value k v d) k' =
     (if k' = k then (case v of VInt32 s \<Rightarrow> Some s | _ \<Rightarrow> None) else lookup_i d k')"
  "lookup_d (insert_value k v d) k' =
     (if k' = k then (case v of VDouble s \<Rightarrow> Some s | _ \<Rightarrow> None) else lookup_d d k')"
  "lookup_value (insert_value k v d) k' =
     (if k' = k then (case v of VDict s \<Rightarrow> Some s | _ \<Rightarrow> None) else lookup_value d k')"
  by (simp_all add: lookup_s_def lookup_i_def lookup_d_def lookup_value_def insert_value_def
        update_conv')

lemma lookup_delete:
  "lookup_s (AList.delete k d) k' = (if k' = k then None else lookup_s d k')"
  "lookup_i (AList.delete k d) k' = (if k' = k then None else lookup_i d k')"
  "lookup_d (AList.delete k d) k' = (if k' = k then None else lookup_d d k')"
  "lookup_value (AList.delete k d) k' = (if k' = k then None else lookup_value d k')"
  by (simp_all add: lookup_s_def lookup_i_def lookup_d_def lookup_value_def delete_conv')

lemma lookup_empty [simp]:
  "lookup_s [] k = None" "lookup_i [] k = None" "lookup_d [] k = None"
  "lookup_value [] k = None"
  by (simp_all add: lookup_s_def lookup_i_def lookup_d_def lookup_value_def)

lemma serialize_state_lookups:
  "lookup_s (serialize_state ser (SplitContainer i ori pos ac c1 c2)) ''type'' = Some ''split''"
  "lookup_i (serialize_state ser (SplitContainer i ori pos ac c1 c2)) ''orientation'' = Some ori"
  "lookup_d (serialize_state ser (SplitContainer i ori pos ac c1 c2)) ''split-position''
     = Some pos"
  "lookup_value (serialize_state ser (SplitContainer i ori pos ac c1 c2)) ''first''
     = (case c1 of None \<Rightarrow> None | Some a \<Rightarrow> serialize_node ser a)"
  "lookup_value (serialize_state ser (SplitContainer i ori pos ac c1 c2)) ''second''
     = (case c2 of None \<Rightarrow> None | Some a \<Rightarrow> serialize_node ser a)"
  by (simp_all add: Let_def lookup_insert_value split: option.splits)

lemma shape_of_split:
  "shape_of (SplitContainer i ori pos ac c1 c2) = Branch ori pos (slot_shape c1) (slot_shape c2)"
  by (simp add: slot_shape_def)

lemma deserialize_node_split:
  "lookup_s d ''type'' = Some ''split'' \<Longrightarrow>
   deserialize_node create n d = deserialize_state create n d"
  by (simp add: deserialize_node.simps)

lemma deserialize_state_split:
  assumes "lookup_s d ''type'' = Some ''split''"
  shows "deserialize_state create n d =
     (Some (SplitContainer n
              (case lookup_i d ''orientation'' of Some k \<Rightarrow> k | None \<Rightarrow> HORIZONTAL)
              (case lookup_d d ''split-position'' of Some x \<Rightarrow> x | None \<Rightarrow> 0.5) None
              (fst (deserialize_slot create (Suc n) (lookup_value d ''first'')))
              (fst (deserialize_slot create
                      (snd (deserialize_slot create (Suc n) (lookup_value d ''first'')))
                      (lookup_value d ''second'')))),
      snd (deserialize_slot create
             (snd (deserialize_slot create (Suc n) (lookup_value d ''first'')))
             (lookup_value d ''second'')))"
  using assms
  by (subst deserialize_state.simps) (simp add: Let_def deserialize_slot_def)

lemma deserialize_state_not_split:
  "lookup_s d ''type'' \<noteq> Some ''split'' \<Longrightarrow> deserialize_state create n d = (None, n)"
  by (subst deserialize_state.simps) simp

lemma deserialize_node_unknown:
  "lookup_s d ''type'' \<noteq> Some ''terminal'' \<Longrightarrow> lookup_s d ''type'' \<noteq> Some ''split'' \<Longrightarrow>
   deserialize_node create n d = (None, n)"
  by (simp add: deserialize_node.simps)

lemma deserialize_slot_unknown:
  "lookup_s bad ''type'' \<noteq> Some ''terminal'' \<Longrightarrow> lookup_s bad ''type'' \<noteq> Some ''split'' \<Longrightarrow>
   deserialize_slot create n (Some bad) = deserialize_slot create n None"
  by (simp add: deserialize_slot_def deserialize_node_unknown)

subsection \<open>Serializing and deserializing a tab\<close>

declare serialize_state.simps(1) [simp del]

lemma roundtrip_node:
  "\<exists>d. serialize_node ser w = Some d
     \<and> slot_shape (fst (deserialize_node create n d))
         = Some (map_shape (\<lambda>p. create (insert_value ''type'' (VString ''terminal'') (ser p)))
                   (shape_of w))"
proof (induction w arbitrary: n)
  case (TerminalPage i p)
  show ?case
    by (simp add: deserialize_node.simps lookup_insert_value slot_shape_def)
next
  case (SplitContainer i ori pos ac c1 c2)
  let ?rt = "\<lambda>p. create (insert_value ''type'' (VString ''terminal'') (ser p))"
  let ?w = "SplitContainer i ori pos ac c1 c2"
  let ?d = "serialize_state ser ?w"
  have slot: "slot_shape (fst (deserialize_slot create m
                 (case c of None \<Rightarrow> None | Some a \<Rightarrow> serialize_node ser a)))
              = map_option (map_shape ?rt) (slot_shape c)"
    if "\<And>a n. c = Some a \<Longrightarrow> \<exists>d. serialize_node ser a = Some d
           \<and> slot_shape (fst (deserialize_node create n d)) = Some (map_shape ?rt (shape_of a))"
    for c m
  proof (cases c)
    case None
    then show ?thesis by (simp add: deserialize_slot_def slot_shape_def)
  next
    case (Some a)
    from that[OF Some, of m]
    obtain d where "serialize_node ser a = Some d"
      and "slot_shape (fst (deserialize_node create m d)) = Some (map_shape ?rt (shape_of a))"
      by auto
    with Some show ?thesis
      by (simp add: deserialize_slot_def slot_shape_def)
  qed
  have s1: "slot_shape (fst (deserialize_slot create m
                 (case c1 of None \<Rightarrow> None | Some a \<Rightarrow> serialize_node ser a)))
              = map_option (map_shape ?rt) (slot_shape c1)" for m
    by (rule slot) (use SplitContainer.IH(1) in auto)
  have s2: "slot_shape (fst (deserialize_slot create m
                 (case c2 of None \<Rightarrow> None | Some a \<Rightarrow> serialize_node ser a)))
              = map_option (map_shape ?rt) (slot_shape c2)" for m
    by (rule slot) (use SplitContainer.IH(2) in auto)
  have "slot_shape (fst (deserialize_node create n ?d)) = Some (map_shape ?rt (shape_of ?w))"
    by (simp add: deserialize_node_split deserialize_state_split serialize_state_lookups
          shape_of_split s1 s2 slot_shape_def[of "Some _"] del: shape_of.simps)
  then show ?case
    by (simp del: shape_of.simps)
qed

lemma roundtrip_container:
  assumes "c_content c = Some w" and "\<not> c_destroyed c"
  shows "\<exists>d. container_serialize_state page_serialize c = Some d
           \<and> slot_shape (c_content (container_deserialize_state page_deserialize n d))
               = Some (map_shape (\<lambda>p. page_deserialize
                            (insert_value ''type'' (VString ''terminal'') (page_serialize p)))
                         (shape_of w))"
proof (cases w)
  case (TerminalPage i p)
  with assms show ?thesis
    by (simp add: container_serialize_state_def container_deserialize_state_def
          lookup_insert_value set_terminal_def set_active_terminal_def new_container_def
          slot_shape_def)
next
  case (SplitContainer i ori pos ac c1 c2)
  let ?d = "serialize_state page_serialize w"
  let ?rt = "\<lambda>p. page_deserialize (insert_value ''type'' (VString ''terminal'') (page_serialize p))"
  from roundtrip_node[of page_serialize w page_deserialize n] SplitContainer
  have rt: "slot_shape (fst (deserialize_node page_deserialize n ?d)) = Some (map_shape ?rt (shape_of w))"
    by (simp del: shape_of.simps)
  have ty: "lookup_s ?d ''type'' = Some ''split''"
    using SplitContainer by (simp add: serialize_state_lookups)
  from rt ty obtain s n' where ds: "deserialize_state page_deserialize n ?d = (Some s, n')"
    and sh: "shape_of s = map_shape ?rt (shape_of w)"
    by (cases "deserialize_state page_deserialize n ?d")
       (auto simp: deserialize_node_split slot_shape_def split: option.splits)
  have "container_serialize_state page_serialize c = Some ?d"
    using assms(1,2) SplitContainer by (simp add: container_serialize_state_def)
  moreover have "slot_shape (c_content (container_deserialize_state page_deserialize n ?d))
               = Some (map_shape ?rt (shape_of w))"
    using ty ds sh
    by (simp add: container_deserialize_state_def update_active_terminal_def
          set_active_terminal_def slot_shape_def)
  ultimately show ?thesis by blast
qed

text \<open>
  C3. A live container with any tree as content (a single terminal, a two-way split and
  a split nested three deep among them) serializes to a record, and deserializing that
  record gives a container whose tree has the same shape: the same orientations, the
  same positions (equal, hence within 0.001), the same slots filled, and at every leaf a
  page with the state of the original page. The page collaborator is assumed to rebuild
  the state of a page from the record that the page serialized, with the type tag added.
\<close>

theorem serialize_deserialize_roundtrip:
  assumes "c_content c = Some w" and "\<not> c_destroyed c"
    and "\<And>p. page_deserialize (insert_value ''type'' (VString ''terminal'') (page_serialize p)) = p"
  shows "\<exists>d. container_serialize_state page_serialize c = Some d
           \<and> slot_shape (c_content (container_deserialize_state page_deserialize n d))
               = Some (shape_of w)"
  using roundtrip_container[OF assms(1,2), of page_serialize page_deserialize n]
  by (simp add: assms(3) shape.map_ident)

theorem serialize_deserialize_roundtrip_witness:
  "\<exists>d. container_serialize_state title_serialize
          ((new_container 7)
             \<lparr>c_content := Some (SplitContainer 0 HORIZONTAL 0.5 None
                (Some (SplitContainer 1 VERTICAL 0.25 None
                   (Some (SplitContainer 2 HORIZONTAL 0.75 None
                      (Some (TerminalPage 3 ''a'')) (Some (TerminalPage 4 ''b''))))
                   (Some (TerminalPage 5 ''c''))))
                (Some (TerminalPage 6 ''d'')))\<rparr>) = Some d
     \<and> slot_shape (c_content (container_deserialize_state title_deserialize 10 d))
         = Some (Branch HORIZONTAL 0.5
              (Some (Branch VERTICAL 0.25
                 (Some (Branch HORIZONTAL 0.75 (Some (Leaf ''a'')) (Some (Leaf ''b''))))
                 (Some (Leaf ''c''))))
              (Some (Leaf ''d'')))"
proof -
  have h: "title_deserialize (insert_value ''type'' (VString ''terminal'') (title_serialize p)) = p"
    for p
    by (simp add: title_deserialize_def title_serialize_def insert_value_def lookup_s_def)
  show ?thesis
    using serialize_deserialize_roundtrip
      [of "(new_container 7)
             \<lparr>c_content := Some (SplitContainer 0 HORIZONTAL 0.5 None
                (Some (SplitContainer 1 VERTICAL 0.25 None
                   (Some (SplitContainer 2 HORIZONTAL 0.75 None
                      (Some (TerminalPage 3 ''a'')) (Some (TerminalPage 4 ''b''))))
                   (Some (TerminalPage 5 ''c''))))
                (Some (TerminalPage 6 ''d'')))\<rparr>" _ title_deserialize title_serialize 10,
       OF _ _ h]
    by (simp add: new_container_def)
qed

subsection \<open>Nodes of unknown type\<close>

lemma roundtrip_slot:
  "slot_shape (fst (deserialize_slot create m
       (case c of None \<Rightarrow> None | Some a \<Rightarrow> serialize_node ser a)))
   = map_option (map_shape (\<lambda>p. create (insert_value ''type'' (VString ''terminal'') (ser p))))
       (slot_shape c)"
proof (cases c)
  case None
  then show ?thesis by (simp add: deserialize_slot_def slot_shape_def)
next
  case (Some a)
  from roundtrip_node[of ser a create m] Some show ?thesis
    by (auto simp: deserialize_slot_def slot_shape_def)
qed

lemma serialize_node_split:
  "is_split_container a \<Longrightarrow> serialize_node ser a = Some (serialize_state ser a)"
  by (cases a) simp_all

lemma slot_key_lookups:
  "lookup_s (insert_value (slot_key s) (VDict e) d) ''type'' = lookup_s d ''type''"
  "lookup_i (insert_value (slot_key s) (VDict e) d) ''orientation'' = lookup_i d ''orientation''"
  "lookup_d (insert_value (slot_key s) (VDict e) d) ''split-position''
     = lookup_d d ''split-position''"
  "lookup_value (insert_value (slot_key First) (VDict e) d) ''first'' = Some e"
  "lookup_value (insert_value (slot_key First) (VDict e) d) ''second''
     = lookup_value d ''second''"
  "lookup_value (insert_value (slot_key Second) (VDict e) d) ''second'' = Some e"
  "lookup_value (insert_value (slot_key Second) (VDict e) d) ''first''
     = lookup_value d ''first''"
  by (cases s; simp add: lookup_insert_value)+

lemma corrupt_at_type:
  "is_split_container w \<Longrightarrow>
   lookup_s (corrupt_at pth sd bad (serialize_state ser w)) ''type'' = Some ''split''"
proof -
  assume "is_split_container w"
  then obtain i ori pos ac c1 c2 where w: "w = SplitContainer i ori pos ac c1 c2"
    by (cases w) simp_all
  show ?thesis
  proof (cases pth)
    case Nil
    then show ?thesis
      by (simp add: slot_key_lookups w serialize_state_lookups del: slot_key.simps)
  next
    case (Cons s rest)
    then show ?thesis
      by (cases "lookup_value (serialize_state ser w) (slot_key s)")
         (simp_all add: slot_key_lookups w serialize_state_lookups del: slot_key.simps)
  qed
qed

text \<open>
  A record of unknown type that sits in an empty slot, at any depth, is passed over:
  the tree is restored as from the record without it.
\<close>

lemma deserialize_corrupt_at:
  assumes "lookup_s bad ''type'' \<noteq> Some ''terminal''"
    and "lookup_s bad ''type'' \<noteq> Some ''split''"
  shows "subtree_at pth w = Some g \<Longrightarrow> is_split_container g \<Longrightarrow> slot_of sd g = None \<Longrightarrow>
     slot_shape (fst (deserialize_state create n
                        (corrupt_at pth sd bad (serialize_state ser w))))
     = Some (map_shape (\<lambda>p. create (insert_value ''type'' (VString ''terminal'') (ser p)))
               (shape_of w))"
proof (induction pth arbitrary: w n)
  case Nil
  then obtain i ori pos ac c1 c2 where w: "w = SplitContainer i ori pos ac c1 c2"
    by (cases w) auto
  let ?d = "serialize_state ser w"
  show ?case
  proof (cases sd)
    case First
    with Nil w have c1: "c1 = None" by auto
    have "lookup_value ?d ''second'' = (case c2 of None \<Rightarrow> None | Some a \<Rightarrow> serialize_node ser a)"
      unfolding w by (rule serialize_state_lookups)
    then show ?thesis
      unfolding First corrupt_at.simps
      by (simp add: deserialize_state_split slot_key_lookups deserialize_slot_unknown[OF assms]
            roundtrip_slot w serialize_state_lookups(1,2,3) shape_of_split c1
            slot_shape_def[of "Some _"] slot_shape_def[of None] deserialize_slot_def[of _ _ None]
            del: shape_of.simps slot_key.simps)
  next
    case Second
    with Nil w have c2: "c2 = None" by auto
    have "lookup_value ?d ''first'' = (case c1 of None \<Rightarrow> None | Some a \<Rightarrow> serialize_node ser a)"
      unfolding w by (rule serialize_state_lookups)
    then show ?thesis
      unfolding Second corrupt_at.simps
      by (simp add: deserialize_state_split slot_key_lookups deserialize_slot_unknown[OF assms]
            roundtrip_slot w serialize_state_lookups(1,2,3) shape_of_split c2
            slot_shape_def[of "Some _"] slot_shape_def[of None] deserialize_slot_def[of _ _ None]
            del: shape_of.simps slot_key.simps)
  qed
next
  case (Cons s pth)
  from Cons.prems(1) obtain i ori pos ac c1 c2 where w: "w = SplitContainer i ori pos ac c1 c2"
    by (cases w) simp_all
  let ?rt = "\<lambda>p. create (insert_value ''type'' (VString ''terminal'') (ser p))"
  let ?d = "serialize_state ser w"
  have l1: "lookup_value ?d ''first'' = (case c1 of None \<Rightarrow> None | Some a \<Rightarrow> serialize_node ser a)"
    and l2: "lookup_value ?d ''second'' = (case c2 of None \<Rightarrow> None | Some a \<Rightarrow> serialize_node ser a)"
    unfolding w by (rule serialize_state_lookups)+
  have sub_split: "is_split_container a" if "subtree_at pth a = Some g" for a
    using that Cons.prems(2) by (cases pth; cases a) simp_all
  show ?case
  proof (cases s)
    case First
    with Cons.prems(1) w obtain a where a: "c1 = Some a" "subtree_at pth a = Some g"
      by (cases c1) simp_all
    have sa: "serialize_node ser a = Some (serialize_state ser a)"
      by (rule serialize_node_split[OF sub_split[OF a(2)]])
    have ty: "lookup_s (corrupt_at pth sd bad (serialize_state ser a)) ''type'' = Some ''split''"
      by (rule corrupt_at_type[OF sub_split[OF a(2)]])
    have ih: "slot_shape (fst (deserialize_slot create (Suc n)
                 (Some (corrupt_at pth sd bad (serialize_state ser a)))))
              = Some (map_shape ?rt (shape_of a))"
      using Cons.IH[OF a(2) Cons.prems(2,3), of "Suc n"] ty
      by (simp add: deserialize_slot_def deserialize_node_split)
    have cor: "corrupt_at (s # pth) sd bad ?d
        = insert_value (slot_key First) (VDict (corrupt_at pth sd bad (serialize_state ser a))) ?d"
      using First l1 a(1) sa by simp
    show ?thesis
      unfolding cor
      by (simp add: deserialize_state_split slot_key_lookups l2 ih roundtrip_slot
            serialize_state_lookups(1,2,3)[of ser i ori pos ac c1 c2, folded w]
            shape_of_split[of i ori pos ac c1 c2, folded w] shape_of_split a(1)
            slot_shape_def[of "Some _"]
            del: shape_of.simps slot_key.simps)
  next
    case Second
    with Cons.prems(1) w obtain a where a: "c2 = Some a" "subtree_at pth a = Some g"
      by (cases c2) simp_all
    have sa: "serialize_node ser a = Some (serialize_state ser a)"
      by (rule serialize_node_split[OF sub_split[OF a(2)]])
    have ty: "lookup_s (corrupt_at pth sd bad (serialize_state ser a)) ''type'' = Some ''split''"
      by (rule corrupt_at_type[OF sub_split[OF a(2)]])
    have ih: "slot_shape (fst (deserialize_slot create m
                 (Some (corrupt_at pth sd bad (serialize_state ser a)))))
              = Some (map_shape ?rt (shape_of a))" for m
      using Cons.IH[OF a(2) Cons.prems(2,3), of m] ty
      by (simp add: deserialize_slot_def deserialize_node_split)
    have cor: "corrupt_at (s # pth) sd bad ?d
        = insert_value (slot_key Second) (VDict (corrupt_at pth sd bad (serialize_state ser a))) ?d"
      using Second l2 a(1) sa by simp
    show ?thesis
      unfolding cor
      by (simp add: deserialize_state_split slot_key_lookups l1 ih roundtrip_slot
            serialize_state_lookups(1,2,3)[of ser i ori pos ac c1 c2, folded w]
            shape_of_split[of i ori pos ac c1 c2, folded w] shape_of_split a(1)
            slot_shape_def[of "Some _"]
            del: shape_of.simps slot_key.simps)
  qed
qed

text \<open>
  C8. A node record whose type tag is missing, is not a string, or is a string other than
  \<^verbatim>\<open>terminal\<close> and \<^verbatim>\<open>split\<close> deserializes to nothing and creates no object; the
  deserializer has no failing branch. Take the record of any tab whose tree is a split,
  and put such a record under the key of an empty slot of any split of the tree, at any
  depth. Restoring the tab from that record gives a tree of the shape of the whole
  original tree: every split, the split that holds the foreign record among them, with
  its orientation and position, every other branch, and at every leaf the page that the
  page collaborator builds from the record of the original page; the slot with the
  foreign record stays empty.
\<close>

theorem deserialize_unknown_node:
  assumes "lookup_s bad ''type'' \<noteq> Some ''terminal''"
    and "lookup_s bad ''type'' \<noteq> Some ''split''"
    and "subtree_at pth w = Some g"
    and "is_split_container g"
    and "slot_of sd g = None"
  shows "deserialize_node create n bad = (None, n)
       \<and> slot_shape (c_content (container_deserialize_state create n
                                   (corrupt_at pth sd bad (serialize_state ser w))))
           = Some (map_shape (\<lambda>p. create (insert_value ''type'' (VString ''terminal'') (ser p)))
                     (shape_of w))"
proof
  show "deserialize_node create n bad = (None, n)"
    using assms(1,2) by (rule deserialize_node_unknown)
next
  let ?d = "corrupt_at pth sd bad (serialize_state ser w)"
  have "is_split_container w"
    using assms(3,4) by (cases pth; cases w) simp_all
  then have ty: "lookup_s ?d ''type'' = Some ''split''" by (rule corrupt_at_type)
  from deserialize_corrupt_at[OF assms, of create n ser]
  obtain t n' where "deserialize_state create n ?d = (Some t, n')"
    and "shape_of t
         = map_shape (\<lambda>p. create (insert_value ''type'' (VString ''terminal'') (ser p))) (shape_of w)"
    by (cases "deserialize_state create n ?d") (auto simp: slot_shape_def split: option.splits)
  with ty show "slot_shape (c_content (container_deserialize_state create n ?d))
           = Some (map_shape (\<lambda>p. create (insert_value ''type'' (VString ''terminal'') (ser p)))
                     (shape_of w))"
    by (simp add: container_deserialize_state_def slot_shape_def update_active_terminal_def
          set_active_terminal_def)
qed

theorem deserialize_unknown_node_witness:
  "lookup_s [(''type'', VString ''notebook'')] ''type'' \<noteq> Some ''terminal''
   \<and> lookup_s [(''type'', VString ''notebook'')] ''type'' \<noteq> Some ''split''
   \<and> subtree_at [First]
        (SplitContainer 0 VERTICAL 0.3 None
           (Some (SplitContainer 1 HORIZONTAL 0.7 None (Some (TerminalPage 2 ''a'')) None))
           (Some (TerminalPage 3 ''b'')))
      = Some (SplitContainer 1 HORIZONTAL 0.7 None (Some (TerminalPage 2 ''a'')) None)
   \<and> slot_of Second (SplitContainer 1 HORIZONTAL 0.7 None (Some (TerminalPage 2 ''a'')) None)
      = None
   \<and> deserialize_node title_deserialize 5 [(''type'', VString ''notebook'')] = (None, 5)
   \<and> slot_shape (c_content (container_deserialize_state title_deserialize 5
        (corrupt_at [First] Second [(''type'', VString ''notebook'')]
           (serialize_state title_serialize
              (SplitContainer 0 VERTICAL 0.3 None
                 (Some (SplitContainer 1 HORIZONTAL 0.7 None (Some (TerminalPage 2 ''a'')) None))
                 (Some (TerminalPage 3 ''b'')))))))
      = Some (Branch VERTICAL 0.3
                (Some (Branch HORIZONTAL 0.7 (Some (Leaf ''a'')) None))
                (Some (Leaf ''b'')))"
proof -
  have h: "title_deserialize (insert_value ''type'' (VString ''terminal'') (title_serialize p)) = p"
    for p
    by (simp add: title_deserialize_def title_serialize_def insert_value_def lookup_s_def)
  have u: "lookup_s [(''type'', VString ''notebook'')] ''type'' \<noteq> Some ''terminal''"
    "lookup_s [(''type'', VString ''notebook'')] ''type'' \<noteq> Some ''split''"
    by (simp_all add: lookup_s_def)
  show ?thesis
    using deserialize_unknown_node
      [of "[(''type'', VString ''notebook'')]" "[First]"
          "SplitContainer 0 VERTICAL 0.3 None
             (Some (SplitContainer 1 HORIZONTAL 0.7 None (Some (TerminalPage 2 ''a'')) None))
             (Some (TerminalPage 3 ''b''))"
          "SplitContainer 1 HORIZONTAL 0.7 None (Some (TerminalPage 2 ''a'')) None"
          Second title_deserialize 5 title_serialize, OF u]
    by (simp add: h u)
qed

text \<open>
  The same for any record, written by the serializer or not: a child record of unknown
  type counts as no child.
\<close>

lemma deserialize_state_unknown_child:
  assumes "lookup_s bad ''type'' \<noteq> Some ''terminal''"
    and "lookup_s bad ''type'' \<noteq> Some ''split''"
  shows "deserialize_state create n (insert_value (slot_key s) (VDict bad) d)
           = deserialize_state create n (AList.delete (slot_key s) d)"
proof (cases "lookup_s d ''type'' = Some ''split''")
  case True
  then show ?thesis
    by (cases s)
       (simp_all add: deserialize_state_split lookup_insert_value lookup_delete
          deserialize_slot_unknown[OF assms])
next
  case False
  then show ?thesis
    by (cases s) (simp_all add: deserialize_state_not_split lookup_insert_value lookup_delete)
qed

subsection \<open>Unsplitting\<close>

lemma foldl_widget_destroy:
  "destroyed_objs
     (foldl (\<lambda>s t. if \<not> same_obj (Some t) active then widget_destroy s t else s) c ts)
   = destroyed_objs c @ map obj_id (filter (\<lambda>t. \<not> same_obj (Some t) active) ts)"
  by (induction ts arbitrary: c) (simp_all add: widget_destroy_def)

lemma unsplit_split:
  assumes "is_split c" and "c_active_terminal c = Some a" and "is_terminal a"
  shows "unsplit c =
      Inr ((foldl (\<lambda>s t. if \<not> same_obj (Some t) (Some a) then widget_destroy s t else s)
              (c\<lparr>c_restructuring := True\<rparr>) (container_get_all_terminals c))
            \<lparr>c_content := Some a, c_active_terminal := Some a, c_restructuring := False\<rparr>)"
proof -
  from assms(3) have ids: "widget_ids a = [obj_id a]" and foc: "set_focus_path (obj_id a) a = a"
    by (cases a; simp)+
  show ?thesis
    unfolding unsplit_def Let_def grab_focus_def update_active_terminal_def
      set_active_terminal_def
    using assms by (simp add: ids foc del: same_obj.simps)
qed

text \<open>
  On a container that is not split, \<^verbatim>\<open>unsplit()\<close> changes nothing. On a split container
  with active terminal \<open>a\<close>, \<^verbatim>\<open>unsplit()\<close> returns normally, \<^verbatim>\<open>destroy()\<close> has run on
  exactly the terminals of the tree other than \<open>a\<close>, in traversal order, and the content
  is \<open>a\<close> alone, which is still the active terminal; the container is no longer split.
\<close>

lemma unsplit_with_active:
  "(\<not> is_split c \<longrightarrow> unsplit c = Inr c)
   \<and> (is_split c \<longrightarrow> c_active_terminal c = Some a \<longrightarrow> is_terminal a \<longrightarrow>
        (\<exists>c'. unsplit c = Inr c'
           \<and> c_content c' = Some a
           \<and> c_active_terminal c' = Some a
           \<and> \<not> is_split c'
           \<and> destroyed_objs c' =
               destroyed_objs c @
               map obj_id (filter (\<lambda>t. \<not> same_obj (Some t) (Some a))
                             (container_get_all_terminals c))))"
proof (intro conjI impI)
  assume "\<not> is_split c"
  then show "unsplit c = Inr c" by (simp add: unsplit_def)
next
  assume h: "is_split c" "c_active_terminal c = Some a" "is_terminal a"
  show "\<exists>c'. unsplit c = Inr c'
           \<and> c_content c' = Some a
           \<and> c_active_terminal c' = Some a
           \<and> \<not> is_split c'
           \<and> destroyed_objs c' =
               destroyed_objs c @
               map obj_id (filter (\<lambda>t. \<not> same_obj (Some t) (Some a))
                             (container_get_all_terminals c))"
    unfolding unsplit_split[OF h]
    using h(3) by (simp add: is_split_def foldl_widget_destroy del: same_obj.simps)
qed

text \<open>
  A split container without an active terminal: every terminal of the tree is destroyed,
  the content is dropped, and the property write on null throws.
\<close>

lemma unsplit_without_active:
  assumes "is_split c" and "c_active_terminal c = None"
  shows "\<exists>c'. unsplit c = Inl (TypeError, c')
           \<and> c_content c' = None
           \<and> c_active_terminal c' = None
           \<and> destroyed_objs c' =
               destroyed_objs c @ map obj_id (container_get_all_terminals c)"
proof -
  have f: "foldl (\<lambda>s t. if \<not> same_obj (Some t) None then widget_destroy s t else s) c0 ts
           = foldl widget_destroy c0 ts" for c0 :: "'a container" and ts
    by (induction ts arbitrary: c0) simp_all
  have d: "destroyed_objs (foldl widget_destroy c0 ts) = destroyed_objs c0 @ map obj_id ts"
    and a: "c_active_terminal (foldl widget_destroy c0 ts) = c_active_terminal c0"
    for c0 :: "'a container" and ts
    by (induction ts arbitrary: c0) (simp_all add: widget_destroy_def)
  show ?thesis
    using assms by (simp add: unsplit_def Let_def f d a)
qed

text \<open>
  C5 fails on the code. The record of a split whose first child is a split without
  children and whose second child is a terminal restores to a split container that holds
  one terminal and has no active terminal, because \<^verbatim>\<open>_get_first_terminal\<close> returns what
  the first child finds and does not go on to the second. There \<^verbatim>\<open>unsplit()\<close> destroys
  the only terminal, leaves the container without content and throws.
\<close>

theorem unsplit_restored_without_active:
  "c_content restored_without_active
     = Some (SplitContainer 0 HORIZONTAL 0.5 None
               (Some (SplitContainer 1 HORIZONTAL 0.5 None None None))
               (Some (TerminalPage 2 ''sh'')))
   \<and> container_get_all_terminals restored_without_active = [TerminalPage 2 ''sh'']
   \<and> c_active_terminal restored_without_active = None
   \<and> unsplit restored_without_active
       = Inl (TypeError, restored_without_active\<lparr>c_content := None, destroyed_objs := [2]\<rparr>)"
proof -
  have c: "restored_without_active
     = (new_container 3)\<lparr>c_content := Some (SplitContainer 0 HORIZONTAL 0.5 None
               (Some (SplitContainer 1 HORIZONTAL 0.5 None None None))
               (Some (TerminalPage 2 ''sh'')))\<rparr>"
    by (simp add: restored_without_active_def container_deserialize_state_def
          deserialize_state.simps deserialize_node.simps Let_def lookup_s_def lookup_i_def
          lookup_d_def lookup_value_def title_deserialize_def update_active_terminal_def
          set_active_terminal_def new_container_def)
  show ?thesis
    unfolding c
    by (simp add: new_container_def container_get_all_terminals_def get_all_terminals_def
          unsplit_def is_split_def Let_def widget_destroy_def)
qed

subsection \<open>The terminals of a fully populated tree\<close>

declare fully_populated.simps(2) [simp del]
declare fully_populated_split [simp]

lemma collect_terminals_leaves:
  "collect_terminals w acc = (if is_terminal w then acc else acc @ leaves w)"
proof (induction w arbitrary: acc)
  case (TerminalPage i p)
  show ?case by simp
next
  case (SplitContainer i ori pos ac c1 c2)
  have a: "(case c1 of None \<Rightarrow> acc | Some child \<Rightarrow>
              if is_terminal child then acc @ [child] else collect_terminals child acc)
           = acc @ (case c1 of None \<Rightarrow> [] | Some a \<Rightarrow> leaves a)" for acc
  proof (cases c1)
    case None then show ?thesis by simp
  next
    case (Some x)
    with SplitContainer.IH(1)[of x acc] show ?thesis by (cases x) auto
  qed
  have b: "(case c2 of None \<Rightarrow> acc | Some child \<Rightarrow>
              if is_terminal child then acc @ [child] else collect_terminals child acc)
           = acc @ (case c2 of None \<Rightarrow> [] | Some a \<Rightarrow> leaves a)" for acc
  proof (cases c2)
    case None then show ?thesis by simp
  next
    case (Some x)
    with SplitContainer.IH(2)[of x acc] show ?thesis by (cases x) auto
  qed
  show ?case by (simp add: Let_def a b)
qed

lemma container_terminals_leaves:
  "container_get_all_terminals c = (case c_content c of None \<Rightarrow> [] | Some w \<Rightarrow> leaves w)"
  by (cases "c_content c")
     (auto simp: container_get_all_terminals_def get_all_terminals_def collect_terminals_leaves
        elim: is_split_container.elims)

lemma leaves_terminal: "a \<in> set (leaves w) \<Longrightarrow> is_terminal a"
proof (induction w)
  case (TerminalPage i p) then show ?case by simp
next
  case (SplitContainer i ori pos ac c1 c2)
  then show ?case by (auto split: option.splits)
qed

lemma get_first_terminal_Some:
  "get_first_terminal (SplitContainer i ori pos ac (Some a) c2) =
     (if is_terminal a then Some a else get_first_terminal a)"
  by simp

lemma first_terminal_populated:
  "fully_populated w \<Longrightarrow> is_split_container w \<Longrightarrow>
   \<exists>a. get_first_terminal w = Some a \<and> a \<in> set (leaves w)"
proof (induction w)
  case (TerminalPage i p) then show ?case by simp
next
  case (SplitContainer i ori pos ac c1 c2)
  from SplitContainer.prems(1) obtain a b where c: "c1 = Some a" "c2 = Some b"
    and pa: "fully_populated a" and pb: "fully_populated b"
    unfolding fully_populated_split by blast
  have lv: "leaves (SplitContainer i ori pos ac c1 c2) = leaves a @ leaves b"
    using c by simp
  have "\<exists>t. (if is_terminal a then Some a else get_first_terminal a) = Some t \<and> t \<in> set (leaves a)"
  proof (cases "is_terminal a")
    case True
    then show ?thesis by (cases a) simp_all
  next
    case False
    then have "is_split_container a" by simp
    with SplitContainer.IH(1)[of a] c pa False show ?thesis by simp
  qed
  then show ?case
    unfolding lv c get_first_terminal_Some by auto
qed

lemma active_terminal_populated:
  "fully_populated w \<Longrightarrow> is_split_container w \<Longrightarrow>
   \<exists>a. active_terminal w = Some a \<and> a \<in> set (leaves w)"
proof (induction w)
  case (TerminalPage i p) then show ?case by simp
next
  case (SplitContainer i ori pos ac c1 c2)
  let ?w = "SplitContainer i ori pos ac c1 c2"
  from SplitContainer.prems(1) obtain a b where c: "c1 = Some a" "c2 = Some b"
    and pa: "fully_populated a" and pb: "fully_populated b"
    unfolding fully_populated_split by blast
  have via: "\<exists>t. (if is_terminal x then Some x else active_terminal x) = Some t \<and> t \<in> set (leaves x)"
    if "x = a \<or> x = b" for x
  proof (cases x)
    case (TerminalPage j q) then show ?thesis by simp
  next
    case S: (SplitContainer j o1 p1 a1 x1 y1)
    from that show ?thesis
    proof
      assume "x = a"
      with SplitContainer.IH(1)[of a] c pa S show ?thesis by simp
    next
      assume "x = b"
      with SplitContainer.IH(2)[of b] c pb S show ?thesis by simp
    qed
  qed
  show ?case
  proof (cases ac)
    case None
    with first_terminal_populated[OF SplitContainer.prems] show ?thesis
      by (simp del: get_first_terminal.simps leaves.simps)
  next
    case (Some sd)
    show ?thesis
    proof (cases sd)
      case First
      with Some c via[of a] show ?thesis by auto
    next
      case Second
      with Some c via[of b] show ?thesis by auto
    qed
  qed
qed

subsection \<open>Fully populated trees under focus changes, searches and rewrites\<close>

lemma populated_forget_focus [simp]:
  "fully_populated (forget_focus w) = fully_populated w"
proof (induction w)
  case (TerminalPage i p) show ?case by simp
next
  case (SplitContainer i ori pos ac c1 c2)
  show ?case
    using SplitContainer.IH
    by (cases c1; cases c2) auto
qed

lemma populated_set_focus_path [simp]:
  "fully_populated (set_focus_path x w) = fully_populated w"
proof (induction w)
  case (TerminalPage i p) show ?case by simp
next
  case (SplitContainer i ori pos ac c1 c2)
  have "fully_populated (forget_focus (SplitContainer i ori pos ac c1 c2))
        = fully_populated (SplitContainer i ori pos ac c1 c2)"
    by (rule populated_forget_focus)
  then show ?case
    using SplitContainer.IH
    by (cases c1; cases c2) (auto simp: in_slot_def)
qed

lemma populated_pack_remove:
  "fully_populated g \<Longrightarrow> fully_populated new \<Longrightarrow> fully_populated (replace_child g old new)"
proof (cases g)
  case (TerminalPage i p)
  then show ?thesis by (simp add: replace_child_def)
next
  case (SplitContainer i ori pos ac c1 c2)
  assume "fully_populated g" "fully_populated new"
  with SplitContainer obtain a b where "c1 = Some a" "c2 = Some b" "fully_populated a" "fully_populated b"
    by (auto simp: fully_populated_split)
  with SplitContainer \<open>fully_populated new\<close> show ?thesis
    by (auto simp: replace_child_def)
qed

lemma populated_update_at:
  "(\<And>g. fully_populated g \<Longrightarrow> fully_populated (f g)) \<Longrightarrow> fully_populated w \<Longrightarrow>
   fully_populated (update_at pth f w)"
proof (induction pth f w rule: update_at.induct)
  case (1 f w) then show ?case by simp
next
  case (2 sd pth f i p) then show ?case by simp
next
  case (3 pth f i ori pos ac c1 c2)
  then show ?case by (cases c1; cases c2) auto
next
  case (4 pth f i ori pos ac c1 c2)
  then show ?case by (cases c1; cases c2) auto
qed

lemma find_unfold:
  "find_parent_split_recursive (SplitContainer i ori pos ac c1 c2) child =
     (if same_obj c1 (Some child) \<or> same_obj c2 (Some child)
      then Some ([], SplitContainer i ori pos ac c1 c2)
      else first_found (find_in_slot First c1 child) (find_in_slot Second c2 child))"
  by (simp add: find_in_slot_def)

lemma find_in_slot_None [simp]: "find_in_slot sd None child = None"
  by (simp add: find_in_slot_def)

lemma find_in_slot_Some:
  "find_in_slot sd (Some a) child = below sd (find_parent_split_recursive a child)"
  by (cases a) (simp_all add: find_in_slot_def below_def)

declare find_parent_split_recursive.simps(1) [simp del]

lemma first_found_Some:
  "first_found x y = Some r \<longleftrightarrow> x = Some r \<or> (x = None \<and> y = Some r)"
  by (cases x) (auto simp: first_found_def)

lemma below_Some:
  "below sd r = Some (pth, g) \<longleftrightarrow> (\<exists>q. r = Some (q, g) \<and> pth = sd # q)"
  by (cases r) (auto simp: below_def)

lemma below_None [simp]: "below sd r = None \<longleftrightarrow> r = None"
  by (cases r) (auto simp: below_def)

lemma find_parent_populated:
  "find_parent_split_recursive w child = Some (pth, g) \<Longrightarrow> fully_populated w \<Longrightarrow> fully_populated g"
proof (induction w arbitrary: pth)
  case (TerminalPage i p) then show ?case by simp
next
  case (SplitContainer i ori pos ac c1 c2)
  from SplitContainer.prems(2) obtain a b where c: "c1 = Some a" "c2 = Some b"
    and pa: "fully_populated a" and pb: "fully_populated b"
    by auto
  show ?case
  proof (cases "same_obj c1 (Some child) \<or> same_obj c2 (Some child)")
    case True
    with SplitContainer.prems show ?thesis by (simp add: find_unfold)
  next
    case False
    with SplitContainer.prems(1) c
    have "(\<exists>q. find_parent_split_recursive a child = Some (q, g)) \<or>
          (\<exists>q. find_parent_split_recursive b child = Some (q, g))"
      by (auto simp: find_unfold first_found_Some find_in_slot_Some below_Some)
    with SplitContainer.IH(1)[of a] SplitContainer.IH(2)[of b] c pa pb
    show ?thesis by auto
  qed
qed

lemma populated_children:
  "fully_populated g \<Longrightarrow> get_child1 g = Some s \<or> get_child2 g = Some s \<Longrightarrow> fully_populated s"
  by (cases g) (auto simp: fully_populated_split)

lemma settle:
  assumes "fully_populated w"
  shows "\<exists>a. c_active_terminal (update_active_terminal (c\<lparr>c_content := Some w\<rparr>)) = Some a
            \<and> is_terminal a
            \<and> a \<in> set (container_get_all_terminals (update_active_terminal (c\<lparr>c_content := Some w\<rparr>)))"
proof (cases "is_terminal w")
  case True
  then show ?thesis
    by (cases w) (simp_all add: update_active_terminal_def set_active_terminal_def
          container_terminals_leaves)
next
  case False
  then have "is_split_container w" by simp
  from active_terminal_populated[OF assms this] obtain a
    where "active_terminal w = Some a" "a \<in> set (leaves w)" by blast
  with False leaves_terminal[of a w] show ?thesis
    by (simp add: update_active_terminal_def set_active_terminal_def
          container_terminals_leaves del: is_terminal.simps)
qed

lemma update_active_fields [simp]:
  "c_content (update_active_terminal c) = c_content c"
  "c_restructuring (update_active_terminal c) = c_restructuring c"
  "c_destroyed (update_active_terminal c) = c_destroyed c"
  by (simp_all add: update_active_terminal_def set_active_terminal_def)

subsection \<open>Settled containers\<close>

lemma settled_update:
  assumes "c_content c = Some w" and "fully_populated w" and "\<not> c_destroyed c"
  shows "settled (update_active_terminal c)"
proof -
  have "c\<lparr>c_content := Some w\<rparr> = c" using assms(1) by simp
  with settle[OF assms(2), of c] assms show ?thesis
    by (simp add: settled_def container_terminals_leaves)
qed

lemma settled_flags [simp]:
  "settled (c\<lparr>c_restructuring := b\<rparr>) = settled c"
  "settled (c\<lparr>next_obj := n\<rparr>) = settled c"
  "settled (c\<lparr>closed_objs := xs\<rparr>) = settled c"
  "settled (c\<lparr>c_collapse_idle := b\<rparr>) = settled c"
  by (simp_all add: settled_def)

lemma settled_not_destroyed: "settled c \<Longrightarrow> c_content c = Some w \<Longrightarrow> \<not> c_destroyed c"
  by (auto simp: settled_def)

lemma settled_grab_focus: "settled c \<Longrightarrow> settled (grab_focus c w)"
proof (cases "c_content c")
  case None
  assume "settled c" with None show ?thesis by (simp add: grab_focus_def)
next
  case (Some tree)
  assume s: "settled c"
  show ?thesis
  proof (cases "obj_id w \<in> set (widget_ids tree)")
    case False
    with Some s show ?thesis by (simp add: grab_focus_def)
  next
    case True
    from s Some have "fully_populated tree" "\<not> c_destroyed c" by (auto simp: settled_def)
    then have "settled (update_active_terminal (c\<lparr>c_content := Some (set_focus_path (obj_id w) tree)\<rparr>))"
      by (intro settled_update[where w="set_focus_path (obj_id w) tree"]) simp_all
    with Some True show ?thesis by (simp add: grab_focus_def)
  qed
qed

lemma grab_focus_fields [simp]:
  "c_restructuring (grab_focus c w) = c_restructuring c"
  "c_destroyed (grab_focus c w) = c_destroyed c"
  "(c_content (grab_focus c w) = None) = (c_content c = None)"
  by (auto simp: grab_focus_def split: option.splits)

lemma grab_focus_populated:
  "c_content c = Some tree \<Longrightarrow> fully_populated tree \<Longrightarrow>
   \<exists>t. c_content (grab_focus c w) = Some t \<and> fully_populated t"
  by (simp add: grab_focus_def)

text \<open>Anything whose content is populated and which recomputes the active terminal last.\<close>

lemma settled_refocus_update:
  assumes "c_content c = Some tree" and "fully_populated tree" and "\<not> c_destroyed c"
  shows "settled (update_active_terminal ((grab_focus c w)\<lparr>c_restructuring := b\<rparr>))"
proof -
  from grab_focus_populated[OF assms(1,2), of w] obtain t
    where "c_content (grab_focus c w) = Some t" "fully_populated t" by blast
  then show ?thesis
    using assms(3) by (intro settled_update[where w=t]) simp_all
qed

subsection \<open>Every operation keeps a container settled\<close>

lemma find_parent_sound:
  "find_parent_split_recursive w child = Some (pth, g) \<Longrightarrow>
   subtree_at pth w = Some g \<and> is_split_container g \<and>
   (same_obj (get_child1 g) (Some child) \<or> same_obj (get_child2 g) (Some child))"
proof (induction w arbitrary: pth)
  case (TerminalPage i p) then show ?case by simp
next
  case (SplitContainer i ori pos ac c1 c2)
  show ?case
  proof (cases "same_obj c1 (Some child) \<or> same_obj c2 (Some child)")
    case True
    with SplitContainer.prems show ?thesis by (auto simp: find_unfold)
  next
    case False
    with SplitContainer.prems
    consider q a where "c1 = Some a" "find_parent_split_recursive a child = Some (q, g)" "pth = First # q"
      | q b where "c2 = Some b" "find_parent_split_recursive b child = Some (q, g)" "pth = Second # q"
      by (cases c1; cases c2)
         (auto simp: find_unfold first_found_Some find_in_slot_Some below_Some)
    then show ?thesis
    proof cases
      case 1
      with SplitContainer.IH(1)[of a q] show ?thesis by simp
    next
      case 2
      with SplitContainer.IH(2)[of b q] show ?thesis by simp
    qed
  qed
qed

lemma ids_update_at:
  "subtree_at pth w = Some g \<Longrightarrow> set (widget_ids (f g)) \<subseteq> set (widget_ids (update_at pth f w))"
proof (induction pth f w rule: update_at.induct)
  case (1 f w) then show ?case by simp
next
  case (2 sd pth f i p) then show ?case by simp
next
  case (3 pth f i ori pos ac c1 c2)
  then show ?case by (cases c1) auto
next
  case (4 pth f i ori pos ac c1 c2)
  then show ?case by (cases c2) auto
qed

lemma ids_replace_child:
  assumes "is_split_container g"
    and "same_obj (get_child1 g) (Some old) \<or> same_obj (get_child2 g) (Some old)"
  shows "set (widget_ids new) \<subseteq> set (widget_ids (replace_child g old new))"
proof (cases g)
  case (TerminalPage i p)
  with assms show ?thesis by simp
next
  case (SplitContainer i ori pos ac c1 c2)
  with assms(2) show ?thesis
    by (cases c1; cases c2) (auto simp: replace_child_def)
qed

lemma settled_split_op:
  assumes "settled c" and "is_terminal terminal"
  shows "settled (split_op new_state c terminal ori)"
proof -
  let ?n = "next_obj c"
  let ?new = "TerminalPage ?n new_state"
  let ?filled = "pack2 (pack1 (SplitContainer (Suc ?n) ori 0.5 None None None) terminal) ?new"
  let ?c1 = "c\<lparr>c_restructuring := True, next_obj := Suc (Suc ?n)\<rparr>"
  have filled: "?filled = SplitContainer (Suc ?n) ori 0.5 None (Some terminal) (Some ?new)"
    by simp
  have pf: "fully_populated ?filled"
    using assms(2) by (cases terminal) simp_all
  have inf: "?n \<in> set (widget_ids ?filled)" by simp
  have settle_in: "settled (grab_focus (?c1\<lparr>c_content := Some t\<rparr>) ?new)"
    if "fully_populated t" "?n \<in> set (widget_ids t)" "\<not> c_destroyed c" for t
  proof -
    have "settled (update_active_terminal
            (?c1\<lparr>c_content := Some t\<rparr>\<lparr>c_content := Some (set_focus_path ?n t)\<rparr>))"
      using that by (intro settled_update[where w="set_focus_path ?n t"]) simp_all
    with that show ?thesis by (simp add: grab_focus_def)
  qed
  show ?thesis
  proof (cases "same_obj (c_content c) (Some terminal)")
    case True
    then obtain w where w: "c_content c = Some w" by (cases "c_content c") auto
    with assms(1) have nd: "\<not> c_destroyed c" by (auto simp: settled_def)
    from settle_in[OF pf inf nd] True show ?thesis
      by (simp add: split_op_def Let_def del: pack1.simps pack2.simps same_obj.simps)
  next
    case notself: False
    show ?thesis
    proof (cases "is_split c")
      case False
      have "settled (grab_focus ?c1 ?new)"
        using assms(1) by (intro settled_grab_focus) simp
      with notself False show ?thesis
        by (simp add: split_op_def Let_def del: pack1.simps pack2.simps same_obj.simps)
    next
      case True
      then obtain w where w: "c_content c = Some w" "is_split_container w"
        by (auto simp: is_split_def split: option.splits)
      with assms(1) have nd: "\<not> c_destroyed c" and pw: "fully_populated w"
        by (auto simp: settled_def)
      show ?thesis
      proof (cases "find_parent_split c terminal")
        case None
        with notself True assms(1) show ?thesis
          by (simp add: split_op_def Let_def del: pack1.simps pack2.simps same_obj.simps)
      next
        case (Some r)
        obtain pth g where r: "r = (pth, g)" by (cases r)
        with Some w have f: "find_parent_split_recursive w terminal = Some (pth, g)"
          by (simp add: find_parent_split_def)
        let ?t = "update_at pth (\<lambda>s. replace_child s terminal ?filled) w"
        from find_parent_sound[OF f] have at: "subtree_at pth w = Some g"
          and g: "is_split_container g"
            "same_obj (get_child1 g) (Some terminal) \<or> same_obj (get_child2 g) (Some terminal)"
          by auto
        have pt: "fully_populated ?t"
          using pw pf by (intro populated_update_at populated_pack_remove)
        have "set (widget_ids ?filled) \<subseteq> set (widget_ids (replace_child g terminal ?filled))"
          using g by (rule ids_replace_child)
        also have "\<dots> \<subseteq> set (widget_ids ?t)"
          using at by (rule ids_update_at)
        finally have nt: "?n \<in> set (widget_ids ?t)" using inf by blast
        from settle_in[OF pt nt nd] notself True Some r w show ?thesis
          by (simp add: split_op_def Let_def del: pack1.simps pack2.simps same_obj.simps)
      qed
    qed
  qed
qed

lemma split_op_restructuring [simp]:
  "c_restructuring (split_op new_state c terminal ori) = False"
  by (simp add: split_op_def Let_def split: option.splits prod.splits)

lemma foldl_widget_destroy_destroyed:
  "c_destroyed (foldl (\<lambda>s t. if \<not> same_obj (Some t) active then widget_destroy s t else s) c ts)
     = c_destroyed c"
  by (induction ts arbitrary: c) (simp_all add: widget_destroy_def)

lemma settled_set_terminal:
  "is_terminal page \<Longrightarrow> \<not> c_destroyed c \<Longrightarrow> settled (set_terminal c page)"
  by (cases page) (simp_all add: settled_def set_terminal_def set_active_terminal_def)

lemma settled_unsplit:
  assumes "settled c" and "unsplit c = Inr c'"
  shows "settled c' \<and> (\<not> c_restructuring c \<longrightarrow> \<not> c_restructuring c')"
proof (cases "is_split c")
  case False
  with assms show ?thesis by (simp add: unsplit_def)
next
  case True
  then obtain w where w: "c_content c = Some w" by (auto simp: is_split_def split: option.splits)
  with assms(1) obtain a where a: "c_active_terminal c = Some a" "is_terminal a"
    and nd: "\<not> c_destroyed c"
    by (auto simp: settled_def)
  from assms(2) have "c' = (foldl (\<lambda>s t. if \<not> same_obj (Some t) (Some a) then widget_destroy s t else s)
              (c\<lparr>c_restructuring := True\<rparr>) (container_get_all_terminals c))
            \<lparr>c_content := Some a, c_active_terminal := Some a, c_restructuring := False\<rparr>"
    unfolding unsplit_split[OF True a] by simp
  with a(2) nd show ?thesis
    by (cases a) (simp_all add: settled_def foldl_widget_destroy_destroyed del: same_obj.simps)
qed

lemma settled_collapse_terminal:
  assumes "settled c"
  shows "settled (collapse_terminal c terminal)"
proof (cases "is_split c")
  case False
  with assms show ?thesis by (simp add: collapse_terminal_def)
next
  case True
  then obtain w where w: "c_content c = Some w" "is_split_container w"
    by (auto simp: is_split_def split: option.splits)
  with assms have nd: "\<not> c_destroyed c" and pw: "fully_populated w"
    by (auto simp: settled_def)
  show ?thesis
  proof (cases "find_parent_split c terminal")
    case None
    with True assms show ?thesis by (simp add: collapse_terminal_def)
  next
    case (Some r)
    obtain pth parent where r: "r = (pth, parent)" by (cases r)
    with Some w have f: "find_parent_split_recursive w terminal = Some (pth, parent)"
      by (simp add: find_parent_split_def)
    have pp: "fully_populated parent" using f pw by (rule find_parent_populated)
    let ?sib = "if same_obj (get_child1 parent) (Some terminal)
                then get_child2 parent else get_child1 parent"
    show ?thesis
    proof (cases ?sib)
      case None
      with True Some r assms show ?thesis
        by (simp add: collapse_terminal_def del: same_obj.simps)
    next
      case sib: (Some sibling)
      then have ps: "fully_populated sibling"
        using populated_children[OF pp, of sibling] by (auto split: if_splits)
      let ?c1 = "c\<lparr>c_restructuring := True\<rparr>"
      let ?c2 = "if same_obj (Some parent) (c_content c)
                 then ?c1\<lparr>c_content := Some sibling\<rparr>
                 else (case find_parent_split c parent of
                         Some (at_grandparent, grandparent) \<Rightarrow>
                           ?c1\<lparr>c_content :=
                                 map_option
                                   (update_at at_grandparent
                                      (\<lambda>g. replace_child g parent sibling))
                                   (c_content c)\<rparr>
                       | None \<Rightarrow> ?c1)"
      have "\<exists>t. c_content ?c2 = Some t \<and> fully_populated t"
        using w pw ps
        by (auto split: option.splits intro!: populated_update_at populated_pack_remove)
      then obtain t where t: "c_content ?c2 = Some t" "fully_populated t" by blast
      have nd2: "\<not> c_destroyed ?c2" using nd by (auto split: option.splits)
      have "settled (update_active_terminal ((grab_focus ?c2 sibling)\<lparr>c_restructuring := False\<rparr>))"
        using t nd2 by (rule settled_refocus_update)
      moreover have "collapse_terminal c terminal =
          update_active_terminal ((grab_focus ?c2 sibling)\<lparr>c_restructuring := False\<rparr>)"
        using True Some r sib
        by (simp add: collapse_terminal_def Let_def del: same_obj.simps)
      ultimately show ?thesis by simp
    qed
  qed
qed

lemma collapse_terminal_restructuring:
  "c_restructuring (collapse_terminal c terminal) \<Longrightarrow> c_restructuring c"
  by (auto simp: collapse_terminal_def Let_def split: if_splits option.splits prod.splits)

lemma settled_close_active_terminal:
  assumes "settled c" and "\<not> c_restructuring c"
  shows "settled (close_active_terminal c) \<and> \<not> c_restructuring (close_active_terminal c)"
proof -
  have "settled (collapse_terminal (c\<lparr>c_restructuring := True\<rparr>) a)" for a
    using assms(1) by (intro settled_collapse_terminal) simp
  with assms show ?thesis
    by (auto simp: close_active_terminal_def Let_def split: option.splits)
qed

lemma detach_is_split [simp]: "is_split_container (detach t w) = is_split_container w"
  by (cases w) (auto simp: Let_def)

lemma settled_collapse_empty_splits:
  assumes "\<not> c_destroyed c" and "c_content c = Some w" and "is_split_container w"
  shows "settled (collapse_empty_splits c) \<and> \<not> c_restructuring (collapse_empty_splits c)"
proof (cases "collapse_split_recursive w")
  case None
  with assms show ?thesis
    by (simp add: collapse_empty_splits_def settled_def set_active_terminal_def
          container_destroy_def)
next
  case (Some result)
  then have pr: "fully_populated result" by (rule collapse_result_populated)
  have "settled (update_active_terminal
           ((grab_focus (c\<lparr>c_restructuring := True, c_content := Some result\<rparr>) result)
              \<lparr>c_restructuring := False\<rparr>))"
    using pr assms(1) by (intro settled_refocus_update[where tree=result]) simp_all
  with Some assms show ?thesis
    by (simp add: collapse_empty_splits_def)
qed

subsection \<open>Restoring a serialized container\<close>

lemma populated_shape_of: "populated_shape (shape_of w) = fully_populated w"
proof (induction w)
  case (TerminalPage i p) show ?case by simp
next
  case (SplitContainer i ori pos ac c1 c2)
  then show ?case by (cases c1; cases c2) auto
qed

lemma populated_map_shape: "populated_shape (map_shape f s) = populated_shape s"
proof (induction s)
  case (Leaf p) show ?case by simp
next
  case (Branch ori pos a b)
  then show ?case by (cases a; cases b) auto
qed

lemma container_deserialize_flags:
  "\<not> c_restructuring (container_deserialize_state page_deserialize n d)"
  "\<not> c_destroyed (container_deserialize_state page_deserialize n d)"
  by (auto simp: container_deserialize_state_def new_container_def set_terminal_def
        set_active_terminal_def update_active_terminal_def split: prod.splits option.splits)

lemma container_deserialize_updated:
  "c_content (container_deserialize_state page_deserialize n d) = Some t \<Longrightarrow>
   update_active_terminal (container_deserialize_state page_deserialize n d)
     = container_deserialize_state page_deserialize n d"
  by (auto simp: container_deserialize_state_def new_container_def set_terminal_def
        set_active_terminal_def update_active_terminal_def split: prod.splits option.splits if_splits)

lemma settled_deserialize:
  assumes "settled c" and "container_serialize_state page_serialize c = Some d"
  shows "settled (container_deserialize_state page_deserialize n d)"
proof -
  from assms(2) obtain w where w: "c_content c = Some w" and nd: "\<not> c_destroyed c"
    by (auto simp: container_serialize_state_def split: option.splits if_splits)
  with assms(1) have pw: "fully_populated w" by (auto simp: settled_def)
  let ?c' = "container_deserialize_state page_deserialize n d"
  from roundtrip_container[OF w nd, of page_serialize page_deserialize n] assms(2)
  obtain t where t: "c_content ?c' = Some t" and "shape_of t = map_shape
       (\<lambda>p. page_deserialize (insert_value ''type'' (VString ''terminal'') (page_serialize p)))
       (shape_of w)"
    by (auto simp: slot_shape_def split: option.splits)
  then have "populated_shape (shape_of t)"
    using pw by (simp add: populated_map_shape populated_shape_of)
  then have pt: "fully_populated t" by (simp add: populated_shape_of)
  have "settled (update_active_terminal ?c')"
    using t pt container_deserialize_flags(2) by (rule settled_update)
  then show ?thesis by (simp add: container_deserialize_updated[OF t])
qed

subsection \<open>Layouts up to divider positions and focus marks\<close>

lemma skeleton_terminal: "is_terminal w \<Longrightarrow> skeleton w = w"
  by (cases w) simp_all

lemma is_terminal_skeleton [simp]: "is_terminal (skeleton w) = is_terminal w"
  by (cases w) simp_all

lemma leaves_skeleton [simp]: "leaves (skeleton w) = leaves w"
proof (induction w)
  case (TerminalPage i p) show ?case by simp
next
  case (SplitContainer i ori pos ac c1 c2)
  then show ?case by (cases c1; cases c2) auto
qed

lemma populated_skeleton [simp]: "fully_populated (skeleton w) = fully_populated w"
proof (induction w)
  case (TerminalPage i p) show ?case by simp
next
  case (SplitContainer i ori pos ac c1 c2)
  then show ?case by (cases c1; cases c2) auto
qed

lemma same_skeleton:
  assumes "skeleton t' = skeleton t"
  shows "leaves t' = leaves t" and "fully_populated t' = fully_populated t"
    and "is_terminal t' = is_terminal t" and "is_terminal t \<Longrightarrow> t' = t"
proof -
  show "leaves t' = leaves t"
    using leaves_skeleton[of t'] leaves_skeleton[of t] assms by simp
  show "fully_populated t' = fully_populated t"
    using populated_skeleton[of t'] populated_skeleton[of t] assms by simp
  show tt: "is_terminal t' = is_terminal t"
    using is_terminal_skeleton[of t'] is_terminal_skeleton[of t] assms by simp
  show "t' = t" if "is_terminal t"
    using that tt skeleton_terminal[of t] skeleton_terminal[of t'] assms by simp
qed

lemma skeleton_forget_focus [simp]: "skeleton (forget_focus w) = skeleton w"
proof (induction w)
  case (TerminalPage i p) show ?case by simp
next
  case (SplitContainer i ori pos ac c1 c2)
  then show ?case by (cases c1; cases c2) auto
qed

lemma skeleton_set_focus_path [simp]: "skeleton (set_focus_path x w) = skeleton w"
proof (induction w)
  case (TerminalPage i p) show ?case by simp
next
  case (SplitContainer i ori pos ac c1 c2)
  then show ?case by (cases c1; cases c2) auto
qed

lemma skeleton_set_split_position [simp]: "skeleton (set_split_position w v) = skeleton w"
  by (cases w) simp_all

lemma skeleton_on_paned_position_changed [simp]:
  "skeleton (on_paned_position_changed w x) = skeleton w"
  by (cases w) simp_all

lemma skeleton_update_at:
  assumes "\<And>g. skeleton (f g) = skeleton g"
  shows "skeleton (update_at pth f w) = skeleton w"
proof (induction pth arbitrary: w)
  case Nil
  show ?case by (simp add: assms)
next
  case (Cons sd pth)
  show ?case
  proof (cases w)
    case (TerminalPage i p) then show ?thesis by simp
  next
    case (SplitContainer i ori pos ac c1 c2)
    with Cons show ?thesis by (cases sd; cases c1; cases c2) simp_all
  qed
qed

lemma same_skeleton_forget:
  "forget_focus t' = forget_focus t \<Longrightarrow> skeleton t' = skeleton t"
  using skeleton_forget_focus[of t'] skeleton_forget_focus[of t] by simp

subsection \<open>Tidy containers\<close>

lemma tidy_flags [simp]:
  "tidy (c\<lparr>c_restructuring := b\<rparr>) = tidy c"
  "tidy (c\<lparr>next_obj := n\<rparr>) = tidy c"
  "tidy (c\<lparr>closed_objs := xs\<rparr>) = tidy c"
  "tidy (c\<lparr>destroyed_objs := xs\<rparr>) = tidy c"
  "tidy (c\<lparr>c_collapse_idle := b\<rparr>) = tidy c"
  by (simp_all add: tidy_def)

lemma settled_tidy: "settled c \<Longrightarrow> tidy c"
proof -
  assume s: "settled c"
  have "c_active_terminal c = Some w" if "c_content c = Some w" "is_terminal w" for w
    using s that by (cases w) (auto simp: settled_def)
  with s show ?thesis by (auto simp: settled_def tidy_def)
qed

lemma get_first_terminal_None:
  "get_first_terminal (SplitContainer i ori pos ac None c2) =
     (case c2 of None \<Rightarrow> None
      | Some b \<Rightarrow> if is_terminal b then Some b else get_first_terminal b)"
  by simp

lemma first_terminal_is_terminal: "get_first_terminal w = Some a \<Longrightarrow> is_terminal a"
proof (induction w arbitrary: a)
  case (TerminalPage i p) then show ?case by simp
next
  case (SplitContainer i ori pos ac c1 c2)
  show ?case
  proof (cases c1)
    case None
    with SplitContainer.prems SplitContainer.IH(2) show ?thesis
      unfolding None get_first_terminal_None
      by (cases c2) (auto split: if_splits simp del: is_terminal.simps)
  next
    case (Some x)
    with SplitContainer.prems SplitContainer.IH(1)[of x a] show ?thesis
      by (auto simp: get_first_terminal_Some split: if_splits simp del: is_terminal.simps get_first_terminal.simps)
  qed
qed

lemma active_terminal_is_terminal: "active_terminal w = Some a \<Longrightarrow> is_terminal a"
proof (induction w arbitrary: a)
  case (TerminalPage i p) then show ?case by simp
next
  case (SplitContainer i ori pos ac c1 c2)
  from SplitContainer.prems SplitContainer.IH(1)[of _ a] SplitContainer.IH(2)[of _ a]
    first_terminal_is_terminal[of "SplitContainer i ori pos ac c1 c2" a]
  show ?case
    by (auto split: option.splits side.splits if_splits
          simp del: is_terminal.simps get_first_terminal.simps)
qed

lemma tidy_update:
  "(c_destroyed c \<Longrightarrow> c_content c = None) \<Longrightarrow> tidy (update_active_terminal c)"
  by (auto simp: tidy_def update_active_terminal_def set_active_terminal_def
        active_terminal_is_terminal split: option.splits if_splits
        simp del: is_terminal.simps)

lemma update_active_idle [simp]:
  "c_collapse_idle (update_active_terminal c) = c_collapse_idle c"
  by (simp add: update_active_terminal_def set_active_terminal_def)

lemma grab_focus_idle [simp]: "c_collapse_idle (grab_focus c w) = c_collapse_idle c"
  by (simp add: grab_focus_def split: option.splits)

lemma tidy_grab_focus: "tidy c \<Longrightarrow> tidy (grab_focus c w)"
proof (cases "c_content c")
  case None
  assume "tidy c" with None show ?thesis by (simp add: grab_focus_def)
next
  case (Some tree)
  assume s: "tidy c"
  have "tidy (update_active_terminal (c\<lparr>c_content := Some t\<rparr>))" for t
    using s Some by (intro tidy_update) (simp add: tidy_def)
  with s Some show ?thesis by (simp add: grab_focus_def)
qed

lemma tidy_same_skeleton:
  assumes "tidy c" and "c_content c = Some t" and "skeleton t' = skeleton t"
  shows "tidy (c\<lparr>c_content := Some t'\<rparr>)"
  using assms same_skeleton(3,4)[OF assms(3)] by (auto simp: tidy_def)

lemma settled_same_skeleton:
  assumes "settled c" and "c_content c = Some t" and "skeleton t' = skeleton t"
  shows "settled (c\<lparr>c_content := Some t'\<rparr>)"
  using assms same_skeleton(1,2)[OF assms(3)] by (auto simp: settled_def)

lemma tidy_set_split:
  "tidy c \<Longrightarrow> c_content c = Some w \<Longrightarrow> is_split_container t \<Longrightarrow>
   tidy (c\<lparr>c_content := Some t\<rparr>)"
  by (cases t) (auto simp: tidy_def)

lemma is_split_replace_child [simp]:
  "is_split_container (replace_child g a b) = is_split_container g"
  by (cases g) (auto simp: replace_child_def split: option.splits)

lemma is_split_update_at:
  assumes "\<And>g. is_split_container (f g) = is_split_container g"
  shows "is_split_container (update_at pth f w) = is_split_container w"
  by (cases pth; cases w; cases "hd pth") (simp_all add: assms)

subsection \<open>Every operation keeps a container tidy\<close>

lemma tidy_set_terminal:
  "is_terminal page \<Longrightarrow> \<not> c_destroyed c \<Longrightarrow> tidy (set_terminal c page)"
  by (simp add: tidy_def set_terminal_def set_active_terminal_def)

lemma set_terminal_fields [simp]:
  "c_collapse_idle (set_terminal c page) = c_collapse_idle c"
  "c_restructuring (set_terminal c page) = c_restructuring c"
  by (simp_all add: set_terminal_def set_active_terminal_def)

lemma split_op_idle [simp]:
  "c_collapse_idle (split_op new_state c terminal ori) = c_collapse_idle c"
  by (simp add: split_op_def Let_def split: option.splits prod.splits)

lemma tidy_split_op:
  assumes "tidy c"
  shows "tidy (split_op new_state c terminal ori)"
proof -
  let ?n = "next_obj c"
  let ?new = "TerminalPage ?n new_state"
  let ?filled = "pack2 (pack1 (SplitContainer (Suc ?n) ori 0.5 None None None) terminal) ?new"
  let ?c1 = "c\<lparr>c_restructuring := True, next_obj := Suc (Suc ?n)\<rparr>"
  have t1: "tidy ?c1" using assms by simp
  have filled: "is_split_container ?filled" by simp
  show ?thesis
  proof (cases "same_obj (c_content c) (Some terminal)")
    case True
    then obtain w where w: "c_content c = Some w" by (cases "c_content c") simp_all
    then have "c_content ?c1 = Some w" by simp
    from tidy_set_split[OF t1 this filled]
    have "tidy (grab_focus (?c1\<lparr>c_content := Some ?filled\<rparr>) ?new)"
      by (rule tidy_grab_focus)
    with True show ?thesis by (simp add: split_op_def Let_def)
  next
    case False
    show ?thesis
    proof (cases "is_split c")
      case ns: False
      from t1 have "tidy (grab_focus ?c1 ?new)" by (rule tidy_grab_focus)
      with False ns show ?thesis by (simp add: split_op_def Let_def)
    next
      case True
      then obtain w where w: "c_content c = Some w" and sw: "is_split_container w"
        by (auto simp: is_split_def split: option.splits)
      show ?thesis
      proof (cases "find_parent_split c terminal")
        case None
        with False True assms show ?thesis by (simp add: split_op_def Let_def)
      next
        case (Some r)
        obtain pth g where r: "r = (pth, g)" by (cases r)
        let ?t = "update_at pth (\<lambda>s. replace_child s terminal ?filled) w"
        have "is_split_container ?t"
          using sw by (simp add: is_split_update_at del: is_split_container.simps)
        moreover have "c_content ?c1 = Some w" using w by simp
        ultimately have "tidy (?c1\<lparr>c_content := Some ?t\<rparr>)"
          using t1 by (intro tidy_set_split[where w=w])
        then have "tidy (grab_focus (?c1\<lparr>c_content := Some ?t\<rparr>) ?new)"
          by (rule tidy_grab_focus)
        with False True Some r w show ?thesis by (simp add: split_op_def Let_def)
      qed
    qed
  qed
qed

lemma foldl_widget_destroy_fields:
  "c_active_terminal
     (foldl (\<lambda>s t. if \<not> same_obj (Some t) active then widget_destroy s t else s) c ts)
     = c_active_terminal c"
  "c_collapse_idle
     (foldl (\<lambda>s t. if \<not> same_obj (Some t) active then widget_destroy s t else s) c ts)
     = c_collapse_idle c"
  by (induction ts arbitrary: c) (simp_all add: widget_destroy_def)

text \<open>
  \<^verbatim>\<open>unsplit()\<close> settles a tidy container, whether it returns or throws: nothing or one
  terminal is left.
\<close>

lemma unsplit_outcome:
  assumes "tidy c" and "unsplit c = Inr c' \<or> unsplit c = Inl (e, c')"
  shows "(c' = c \<or> settled c') \<and> tidy c' \<and> c_collapse_idle c' = c_collapse_idle c
         \<and> (\<not> c_restructuring c \<longrightarrow> \<not> c_restructuring c')"
proof (cases "is_split c")
  case False
  with assms show ?thesis by (simp add: unsplit_def)
next
  case True
  then obtain w where w: "c_content c = Some w" by (auto simp: is_split_def split: option.splits)
  with assms(1) have nd: "\<not> c_destroyed c" by (auto simp: tidy_def)
  show ?thesis
  proof (cases "c_active_terminal c")
    case None
    let ?c1 = "foldl (\<lambda>s t. if \<not> same_obj (Some t) None then widget_destroy s t else s)
                 (c\<lparr>c_restructuring := True\<rparr>) (container_get_all_terminals c)"
    from assms(2) True None
    have c': "c' = ?c1\<lparr>c_content := None, c_restructuring := False\<rparr>"
      by (simp add: unsplit_def Let_def)
    have "c_active_terminal ?c1 = None" "c_collapse_idle ?c1 = c_collapse_idle c"
      using None by (simp_all add: foldl_widget_destroy_fields del: same_obj.simps)
    then have "settled c'" "c_collapse_idle c' = c_collapse_idle c" "\<not> c_restructuring c'"
      unfolding c' by (simp_all add: settled_def)
    then show ?thesis using settled_tidy[of c'] by simp
  next
    case (Some a)
    with assms(1) have ta: "is_terminal a" by (simp add: tidy_def)
    let ?c1 = "foldl (\<lambda>s t. if \<not> same_obj (Some t) (Some a) then widget_destroy s t else s)
                 (c\<lparr>c_restructuring := True\<rparr>) (container_get_all_terminals c)"
    from assms(2)
    have c': "c' = ?c1\<lparr>c_content := Some a, c_active_terminal := Some a,
                        c_restructuring := False\<rparr>"
      unfolding unsplit_split[OF True Some ta] by simp
    have "\<not> c_destroyed ?c1" "c_collapse_idle ?c1 = c_collapse_idle c"
      using nd
      by (simp_all add: foldl_widget_destroy_destroyed foldl_widget_destroy_fields
            del: same_obj.simps)
    then have "settled c'" "c_collapse_idle c' = c_collapse_idle c" "\<not> c_restructuring c'"
      unfolding c' using ta by (cases a; simp add: settled_def)+
    then show ?thesis using settled_tidy[of c'] by simp
  qed
qed

lemma collapse_terminal_idle [simp]:
  "c_collapse_idle (collapse_terminal c terminal) = c_collapse_idle c"
  by (simp add: collapse_terminal_def Let_def split: option.splits prod.splits)

lemma tidy_collapse_terminal:
  assumes "tidy c"
  shows "tidy (collapse_terminal c terminal)"
proof (cases "c_content c")
  case None
  with assms show ?thesis by (simp add: collapse_terminal_def is_split_def)
next
  case (Some w)
  with assms have nd: "\<not> c_destroyed c" by (auto simp: tidy_def)
  have upd: "tidy (update_active_terminal ((grab_focus x sibling)\<lparr>c_restructuring := False\<rparr>))"
    if "\<not> c_destroyed x" for x :: "'a container" and sibling
    using that by (intro tidy_update) simp
  show ?thesis
    unfolding collapse_terminal_def Let_def
    using assms nd by (auto split: option.splits prod.splits intro!: upd)
qed

lemma close_active_terminal_idle [simp]:
  "c_collapse_idle (close_active_terminal c) = c_collapse_idle c"
  by (simp add: close_active_terminal_def Let_def split: option.splits)

lemma close_active_terminal_restructuring:
  "\<not> c_restructuring c \<Longrightarrow> \<not> c_restructuring (close_active_terminal c)"
  by (simp add: close_active_terminal_def Let_def split: option.splits)

lemma tidy_close_active_terminal:
  assumes "tidy c"
  shows "tidy (close_active_terminal c)"
proof -
  have "tidy (collapse_terminal (c\<lparr>c_restructuring := True\<rparr>) a)" for a
    using assms by (intro tidy_collapse_terminal) simp
  with assms show ?thesis
    by (auto simp: close_active_terminal_def Let_def split: option.splits)
qed

text \<open>Moving a divider changes a position only.\<close>

lemma adjust_split_position_skeleton:
  "adjust_split_position c delta = c
   \<or> (\<exists>t t'. c_content c = Some t \<and> skeleton t' = skeleton t
            \<and> adjust_split_position c delta = c\<lparr>c_content := Some t'\<rparr>)"
proof (cases "c_content c")
  case None
  then show ?thesis by (simp add: adjust_split_position_def is_split_def)
next
  case (Some t)
  let ?f = "\<lambda>target. set_split_position target (split_position target + delta)"
  have sk: "skeleton (update_at pth ?f t) = skeleton t" for pth
    by (rule skeleton_update_at) simp
  have "adjust_split_position c delta = c
        \<or> (\<exists>pth. adjust_split_position c delta = c\<lparr>c_content := Some (update_at pth ?f t)\<rparr>)"
  proof (cases "is_split c \<and> c_active_terminal c \<noteq> None")
    case False
    then show ?thesis by (auto simp: adjust_split_position_def)
  next
    case True
    then obtain a where a: "is_split c" "c_active_terminal c = Some a" by auto
    show ?thesis
    proof (cases "find_parent_split c a")
      case None
      with a Some have "adjust_split_position c delta = c\<lparr>c_content := Some (update_at [] ?f t)\<rparr>"
        by (simp add: adjust_split_position_def)
      then show ?thesis by blast
    next
      case (Some r)
      obtain pth g where "r = (pth, g)" by (cases r)
      with a Some \<open>c_content c = Some t\<close>
      have "adjust_split_position c delta = c\<lparr>c_content := Some (update_at pth ?f t)\<rparr>"
        by (simp add: adjust_split_position_def)
      then show ?thesis by blast
    qed
  qed
  with Some sk show ?thesis by blast
qed

lemma divider_dragged_skeleton:
  "c\<lparr>c_content := map_option (update_at pth (\<lambda>s. on_paned_position_changed s x)) (c_content c)\<rparr> = c
   \<or> (\<exists>t t'. c_content c = Some t \<and> skeleton t' = skeleton t
            \<and> c\<lparr>c_content := map_option (update_at pth (\<lambda>s. on_paned_position_changed s x))
                                (c_content c)\<rparr>
                = c\<lparr>c_content := Some t'\<rparr>)"
proof (cases "c_content c")
  case None
  then show ?thesis by simp
next
  case (Some t)
  have "skeleton (update_at pth (\<lambda>s. on_paned_position_changed s x) t) = skeleton t"
    by (rule skeleton_update_at) simp
  with Some show ?thesis by auto
qed

lemma consistent_same_skeleton:
  assumes "consistent c" and "c_content c = Some t" and "skeleton t' = skeleton t"
  shows "consistent (c\<lparr>c_content := Some t'\<rparr>)"
  using assms tidy_same_skeleton[OF _ assms(2,3)] settled_same_skeleton[OF _ assms(2,3)]
  by (simp add: consistent_def)

text \<open>
  A page is destroyed from outside: afterwards a collapse is pending, or the container
  has no content.
\<close>

lemma detach_terminal: "is_terminal w \<Longrightarrow> detach t w = w"
  by (cases w) simp_all

lemma tidy_widget_destroy: "tidy c \<Longrightarrow> tidy (widget_destroy c t)"
  by (cases "c_content c") (auto simp: tidy_def widget_destroy_def detach_terminal)

lemma consistent_terminal_destroyed:
  assumes "tidy c" and "\<not> c_restructuring c"
  shows "consistent (terminal_destroyed c page)"
proof -
  let ?c1 = "widget_destroy c page"
  from assms have t1: "tidy ?c1" and nr: "\<not> c_restructuring ?c1"
    by (simp_all add: tidy_widget_destroy) (simp add: widget_destroy_def)
  show ?thesis
  proof (cases "c_destroyed ?c1")
    case True
    with t1 have "c_content ?c1 = None" "c_active_terminal ?c1 = None" by (auto simp: tidy_def)
    then have "settled ?c1" by (simp add: settled_def)
    with True t1 nr show ?thesis
      by (simp add: terminal_destroyed_def on_terminal_destroyed_def container_destroy_def consistent_def)
  next
    case nd: False
    show ?thesis
    proof (cases "is_split ?c1")
      case False
      with nd nr show ?thesis
        by (simp add: terminal_destroyed_def on_terminal_destroyed_def container_destroy_def consistent_def
              tidy_def settled_def set_active_terminal_def)
    next
      case True
      with nd nr t1 show ?thesis
        by (simp add: terminal_destroyed_def on_terminal_destroyed_def container_destroy_def consistent_def Let_def)
    qed
  qed
qed

text \<open>The idle callback settles the container.\<close>

lemma collapse_empty_splits_idle [simp]:
  "\<not> c_collapse_idle c \<Longrightarrow> \<not> c_collapse_idle (collapse_empty_splits c)"
  by (simp add: collapse_empty_splits_def set_active_terminal_def container_destroy_def
        split: option.splits)

lemma collapse_idle_callback_idle [simp]:
  "\<not> c_collapse_idle (collapse_idle_callback c)"
  by (simp add: collapse_idle_callback_def Let_def)

lemma collapse_idle_callback_not_pending:
  "\<not> c_collapse_idle c \<Longrightarrow> collapse_idle_callback c = c"
  by (simp add: collapse_idle_callback_def)

lemma consistent_collapse_idle_callback:
  assumes "tidy c" and "\<not> c_restructuring c" and "c_collapse_idle c"
  shows "consistent (collapse_idle_callback c)"
proof -
  let ?c1 = "c\<lparr>c_collapse_idle := False\<rparr>"
  from assms have t1: "tidy ?c1" and nr: "\<not> c_restructuring ?c1"
    by simp_all
  note True = assms(3)
  show ?thesis
  proof (cases "c_content c")
    case None
    with t1 have "settled ?c1" by (simp add: settled_def tidy_def)
    with None True t1 nr show ?thesis
      by (simp add: collapse_idle_callback_def collapse_empty_splits_def container_destroy_def consistent_def Let_def)
  next
    case (Some w)
    with t1 have nd: "\<not> c_destroyed ?c1" by (auto simp: tidy_def)
    show ?thesis
    proof (cases "is_split_container w")
      case False
      then have tw: "is_terminal w" by (cases w) simp_all
      with t1 Some have "c_active_terminal c = Some w" by (simp add: tidy_def)
      with Some tw nd have "settled ?c1" by (cases w) (simp_all add: settled_def)
      with Some False True t1 nr nd show ?thesis
        by (simp add: collapse_idle_callback_def collapse_empty_splits_def container_destroy_def consistent_def Let_def)
    next
      case sw: True
      have "c_content ?c1 = Some w" using Some by simp
      from settled_collapse_empty_splits[OF nd this sw]
      have "consistent (collapse_empty_splits ?c1)"
        by (simp add: consistent_def settled_tidy)
      with True nd show ?thesis by (simp add: collapse_idle_callback_def Let_def)
    qed
  qed
qed

subsection \<open>Restoring a complete record\<close>

lemma well_formed_deserialize:
  "well_formed_node d \<Longrightarrow>
   \<exists>t n'. deserialize_node create n d = (Some t, n') \<and> fully_populated t"
proof (induction "size_list (size_prod (\<lambda>_. 0) size) d" arbitrary: d n rule: less_induct)
  case less
  show ?case
  proof (cases "lookup_s d ''type'' = Some ''terminal''")
    case True
    then show ?thesis by (simp add: deserialize_node.simps)
  next
    case False
    with less.prems have sp: "lookup_s d ''type'' = Some ''split''" and wf: "well_formed_split d"
      by (auto simp: well_formed_node.simps split: if_splits)
    from wf sp obtain a b where a: "lookup_value d ''first'' = Some a" "well_formed_node a"
      and b: "lookup_value d ''second'' = Some b" "well_formed_node b"
      by (auto simp: well_formed_split.simps split: option.splits)
    from less.hyps[OF size_lookup_value[OF a(1)] a(2), of "Suc n"] obtain ta na
      where ta: "deserialize_node create (Suc n) a = (Some ta, na)" "fully_populated ta"
      by blast
    from less.hyps[OF size_lookup_value[OF b(1)] b(2), of na] obtain tb nb
      where tb: "deserialize_node create na b = (Some tb, nb)" "fully_populated tb"
      by blast
    from sp a b ta tb show ?thesis
      by (simp add: deserialize_node_split deserialize_state_split deserialize_slot_def)
  qed
qed

lemma deserialize_populated_well_formed:
  "deserialize_node create n d = (Some t, n') \<Longrightarrow> fully_populated t \<Longrightarrow> well_formed_node d"
proof (induction "size_list (size_prod (\<lambda>_. 0) size) d" arbitrary: d n t n' rule: less_induct)
  case less
  show ?case
  proof (cases "lookup_s d ''type'' = Some ''terminal''")
    case True
    then show ?thesis by (simp add: well_formed_node.simps)
  next
    case False
    with less.prems(1) have sp: "lookup_s d ''type'' = Some ''split''"
      by (auto simp: deserialize_node.simps split: if_splits)
    obtain ra na where ra: "deserialize_slot create (Suc n) (lookup_value d ''first'') = (ra, na)"
      by (cases "deserialize_slot create (Suc n) (lookup_value d ''first'')")
    obtain rb nb where rb: "deserialize_slot create na (lookup_value d ''second'') = (rb, nb)"
      by (cases "deserialize_slot create na (lookup_value d ''second'')")
    from less.prems sp ra rb obtain ta tb where rs: "ra = Some ta" "rb = Some tb"
      and pop: "fully_populated ta" "fully_populated tb"
      by (cases ra; cases rb) (auto simp: deserialize_node_split deserialize_state_split)
    from ra rs obtain a where a: "lookup_value d ''first'' = Some a"
      "deserialize_node create (Suc n) a = (Some ta, na)"
      by (cases "lookup_value d ''first''") (simp_all add: deserialize_slot_def)
    from rb rs obtain b where b: "lookup_value d ''second'' = Some b"
      "deserialize_node create na b = (Some tb, nb)"
      by (cases "lookup_value d ''second''") (simp_all add: deserialize_slot_def)
    from less.hyps[OF size_lookup_value[OF a(1)] a(2) pop(1)]
      less.hyps[OF size_lookup_value[OF b(1)] b(2) pop(2)] sp a(1) b(1)
    show ?thesis by (simp add: well_formed_node.simps well_formed_split.simps)
  qed
qed

text \<open>
  The well-formed records are the records that \<^verbatim>\<open>_deserialize_node\<close> restores to a
  tree in which every split has both children, and the complete records are the records
  from which a tab is restored with such a tree.
\<close>

lemma well_formed_iff:
  "well_formed_node d \<longleftrightarrow>
   (\<exists>t n'. deserialize_node create n d = (Some t, n') \<and> fully_populated t)"
  using well_formed_deserialize[of d create n] deserialize_populated_well_formed[of create n d]
  by blast

lemma complete_record_iff:
  "complete_record d \<longleftrightarrow>
   (\<forall>w. c_content (container_deserialize_state create n d) = Some w \<longrightarrow> fully_populated w)"
proof (cases "lookup_s d ''type'' = Some ''split''")
  case False
  then show ?thesis
    by (simp add: complete_record_def container_deserialize_state_def set_terminal_def
          set_active_terminal_def)
next
  case True
  obtain t n' where t: "deserialize_state create n d = (Some t, n')"
    using True by (simp add: deserialize_state_split)
  with True have "deserialize_node create n d = (Some t, n')"
    by (simp add: deserialize_node_split)
  with well_formed_iff[of d create n] have "well_formed_node d \<longleftrightarrow> fully_populated t" by simp
  with True t show ?thesis
    by (simp add: complete_record_def container_deserialize_state_def well_formed_node.simps)
qed

lemma consistent_restore:
  assumes "complete_record d"
  shows "consistent (container_deserialize_state page_deserialize n d)"
proof (cases "lookup_s d ''type'' = Some ''split''")
  case False
  have "settled (set_terminal (new_container (Suc n)) (TerminalPage n (page_deserialize d)))"
    by (rule settled_set_terminal) (simp_all add: new_container_def)
  with False show ?thesis
    by (simp add: container_deserialize_state_def consistent_def settled_tidy)
       (simp add: new_container_def)
next
  case True
  with assms have "well_formed_node d" by (simp add: complete_record_def well_formed_node.simps)
  from well_formed_deserialize[OF this, of page_deserialize n] True obtain t n'
    where t: "deserialize_state page_deserialize n d = (Some t, n')" "fully_populated t"
    by (auto simp: deserialize_node_split)
  have "settled (update_active_terminal ((new_container n')\<lparr>c_content := Some t\<rparr>))"
    using t(2) by (intro settled_update[where w=t]) (simp_all add: new_container_def)
  with True t show ?thesis
    by (simp add: container_deserialize_state_def consistent_def settled_tidy)
       (simp add: new_container_def)
qed

subsection \<open>Every container reached from complete records is consistent\<close>

lemma settled_update_active:
  assumes "settled c"
  shows "settled (update_active_terminal c)"
proof (cases "c_content c")
  case None
  with assms show ?thesis
    by (simp add: settled_def update_active_terminal_def set_active_terminal_def)
next
  case (Some w)
  with assms show ?thesis by (intro settled_update[where w=w]) (auto simp: settled_def)
qed

lemma reachable_consistent: "reachable_from complete_record c \<Longrightarrow> consistent c"
proof (induction rule: reachable_from.induct)
  case (r_new n)
  show ?case by (simp add: consistent_def settled_def tidy_def new_container_def)
next
  case (r_restore d page_deserialize n)
  then show ?case by (rule consistent_restore)
next
  case (r_set_terminal c page)
  then show ?case
    by (simp add: consistent_def settled_set_terminal tidy_set_terminal)
next
  case (r_split c terminal new_state ori)
  then show ?case by (simp add: consistent_def settled_split_op tidy_split_op)
next
  case (r_unsplit c c')
  with unsplit_outcome[of c c'] show ?case by (auto simp: consistent_def)
next
  case (r_unsplit_throws c e c')
  with unsplit_outcome[of c c' e] show ?case by (auto simp: consistent_def)
next
  case (r_collapse_terminal c terminal)
  with collapse_terminal_restructuring[of c terminal] show ?case
    by (auto simp: consistent_def settled_collapse_terminal tidy_collapse_terminal)
next
  case (r_close_active_terminal c)
  with settled_close_active_terminal[of c] close_active_terminal_restructuring[of c] show ?case
    by (auto simp: consistent_def tidy_close_active_terminal)
next
  case (r_adjust_split_position c delta)
  with adjust_split_position_skeleton[of c delta] consistent_same_skeleton[of c]
  show ?case by auto
next
  case (r_divider_dragged c pth normalized)
  with divider_dragged_skeleton[where c=c and pth=pth and x=normalized]
    consistent_same_skeleton[of c]
  show ?case by auto
next
  case (r_focus c w)
  then show ?case by (simp add: consistent_def settled_grab_focus tidy_grab_focus)
next
  case (r_focus_marks c t t')
  from consistent_same_skeleton[OF r_focus_marks.IH r_focus_marks.hyps(2)
      same_skeleton_forget[OF r_focus_marks.hyps(3)]]
  show ?case .
next
  case (r_set_focus_child c)
  have "tidy (update_active_terminal c)"
    using r_set_focus_child.IH by (intro tidy_update) (simp add: consistent_def tidy_def)
  then show ?case using r_set_focus_child.IH by (simp add: consistent_def settled_update_active)
next
  case (r_terminal_destroyed c page)
  then have "tidy c" "\<not> c_restructuring c" by (simp_all add: consistent_def)
  then show ?case by (rule consistent_terminal_destroyed)
next
  case (r_idle c)
  then have "tidy c" "\<not> c_restructuring c" by (simp_all add: consistent_def)
  with r_idle.IH show ?case
    by (cases "c_collapse_idle c")
       (simp_all add: consistent_collapse_idle_callback collapse_idle_callback_not_pending)
qed

subsection \<open>Trees in which every split has a child\<close>

lemma populated_inhabited: "fully_populated w \<Longrightarrow> inhabited w"
proof (induction w)
  case (TerminalPage i p) show ?case by simp
next
  case (SplitContainer i ori pos ac c1 c2)
  then show ?case by (cases c1; cases c2) auto
qed

lemma inhabited_skeleton [simp]: "inhabited (skeleton w) = inhabited w"
proof (induction w)
  case (TerminalPage i p) show ?case by simp
next
  case (SplitContainer i ori pos ac c1 c2)
  then show ?case by (cases c1; cases c2) auto
qed

lemma inhabited_same_skeleton: "skeleton t' = skeleton t \<Longrightarrow> inhabited t' = inhabited t"
  using inhabited_skeleton[of t'] inhabited_skeleton[of t] by simp

lemma inhabited_set_focus_path [simp]: "inhabited (set_focus_path x w) = inhabited w"
  by (rule inhabited_same_skeleton) simp







subsection \<open>Anchored containers\<close>

lemma anchored_flags [simp]:
  "anchored (c\<lparr>c_restructuring := b\<rparr>) = anchored c"
  "anchored (c\<lparr>next_obj := n\<rparr>) = anchored c"
  "anchored (c\<lparr>closed_objs := xs\<rparr>) = anchored c"
  "anchored (c\<lparr>c_collapse_idle := b\<rparr>) = anchored c"
  by (simp_all add: anchored_def)










subsection \<open>Every operation keeps a container anchored\<close>




subsection \<open>Restoring an inhabited record\<close>

lemma deserialize_node_known:
  "(fst (deserialize_node create n d) \<noteq> None) = known_node d"
  by (auto simp: deserialize_node.simps deserialize_state_split known_node_def)

lemma deserialize_inhabited:
  "deserialize_node create n d = (Some t, n') \<Longrightarrow> inhabited t = inhabited_node d"
proof (induction "size_list (size_prod (\<lambda>_. 0) size) d" arbitrary: d n t n' rule: less_induct)
  case less
  show ?case
  proof (cases "lookup_s d ''type'' = Some ''split''")
    case False
    with less.prems show ?thesis
      by (auto simp: deserialize_node.simps inhabited_node.simps split: if_splits)
  next
    case True
    have slot: "(fst (deserialize_slot create m (lookup_value d k)) \<noteq> None)
                  = (case lookup_value d k of None \<Rightarrow> False | Some e \<Rightarrow> known_node e)
              \<and> (case fst (deserialize_slot create m (lookup_value d k)) of
                    None \<Rightarrow> True | Some a \<Rightarrow> inhabited a)
                  = (case lookup_value d k of None \<Rightarrow> True | Some e \<Rightarrow> inhabited_node e)"
      for m k
    proof (cases "lookup_value d k")
      case None
      then show ?thesis by (simp add: deserialize_slot_def)
    next
      case (Some e)
      obtain r m' where r: "deserialize_node create m e = (r, m')"
        by (cases "deserialize_node create m e")
      have kn: "(r \<noteq> None) = known_node e"
        using deserialize_node_known[of create m e] r by simp
      show ?thesis
      proof (cases r)
        case None
        with kn have "lookup_s e ''type'' \<noteq> Some ''split''" by (simp add: known_node_def)
        then have "inhabited_node e" by (simp add: inhabited_node.simps)
        with None Some r kn show ?thesis by (simp add: deserialize_slot_def)
      next
        case a: (Some a)
        from less.hyps[OF size_lookup_value[OF Some] r[unfolded a]] a Some r kn
        show ?thesis by (simp add: deserialize_slot_def)
      qed
    qed
    let ?r1 = "fst (deserialize_slot create (Suc n) (lookup_value d ''first''))"
    let ?m = "snd (deserialize_slot create (Suc n) (lookup_value d ''first''))"
    let ?r2 = "fst (deserialize_slot create ?m (lookup_value d ''second''))"
    from less.prems True obtain ori pos where t: "t = SplitContainer n ori pos None ?r1 ?r2"
      by (auto simp: deserialize_node_split deserialize_state_split)
    have "inhabited t = ((?r1 \<noteq> None \<or> ?r2 \<noteq> None)
            \<and> (case ?r1 of None \<Rightarrow> True | Some a \<Rightarrow> inhabited a)
            \<and> (case ?r2 of None \<Rightarrow> True | Some b \<Rightarrow> inhabited b))"
      unfolding t by simp
    also have "\<dots> = inhabited_split d"
      using True slot[of "Suc n" "''first''"] slot[of ?m "''second''"]
      by (subst inhabited_split.simps) simp
    finally show ?thesis using True by (simp add: inhabited_node.simps)
  qed
qed

text \<open>
  The inhabited records are the records from which a tab is restored with a tree in
  which every split has a child. Every complete record is one of them.
\<close>

lemma inhabited_record_iff:
  "inhabited_record d \<longleftrightarrow>
   (\<forall>w. c_content (container_deserialize_state create n d) = Some w \<longrightarrow> inhabited w)"
proof (cases "lookup_s d ''type'' = Some ''split''")
  case False
  then show ?thesis
    by (simp add: inhabited_record_def container_deserialize_state_def set_terminal_def
          set_active_terminal_def)
next
  case True
  obtain t n' where t: "deserialize_state create n d = (Some t, n')"
    using True by (simp add: deserialize_state_split)
  with True have "deserialize_node create n d = (Some t, n')"
    by (simp add: deserialize_node_split)
  from deserialize_inhabited[OF this] True have "inhabited t = inhabited_split d"
    by (simp add: inhabited_node.simps)
  with True t show ?thesis
    by (simp add: inhabited_record_def container_deserialize_state_def)
qed

lemma complete_record_inhabited: "complete_record d \<Longrightarrow> inhabited_record d"
  using complete_record_iff[of d "\<lambda>_. ()" 0] inhabited_record_iff[of d "\<lambda>_. ()" 0]
  by (auto intro: populated_inhabited)


subsection \<open>Every container reached from inhabited records is steady\<close>


subsection \<open>The tab of Scenario E\<close>

lemma complete_scenario_e: "complete_record scenario_e_record"
  by (simp add: complete_record_def scenario_e_record_def well_formed_split.simps
        well_formed_node.simps lookup_s_def lookup_value_def)

lemma scenario_e_content:
  "c_content scenario_e_container
     = Some (SplitContainer 0 HORIZONTAL 0.5 None (Some (TerminalPage 1 ''a''))
               (Some (SplitContainer 2 VERTICAL 0.3 None
                        (Some (TerminalPage 3 ''b'')) (Some (TerminalPage 4 ''c'')))))"
  by (simp add: scenario_e_container_def scenario_e_record_def container_deserialize_state_def
        deserialize_state.simps deserialize_node.simps HORIZONTAL_def VERTICAL_def
        Let_def lookup_s_def lookup_i_def lookup_d_def lookup_value_def title_deserialize_def
        update_active_terminal_def set_active_terminal_def new_container_def)

lemma scenario_e_fields:
  "c_active_terminal scenario_e_container = Some (TerminalPage 1 ''a'')"
  "\<not> c_collapse_idle scenario_e_container"
  "\<not> c_restructuring scenario_e_container"
  "\<not> c_destroyed scenario_e_container"
  by (simp_all add: scenario_e_container_def scenario_e_record_def container_deserialize_state_def
        deserialize_state.simps deserialize_node.simps
        Let_def lookup_s_def lookup_i_def lookup_d_def lookup_value_def title_deserialize_def
        update_active_terminal_def set_active_terminal_def new_container_def)

subsection \<open>Splits with both children in every reachable state\<close>

text \<open>
  C1, as stated, fails for \<^verbatim>\<open>deserialize_state\<close>: a split record that has a \<^verbatim>\<open>first\<close> child
  and no \<^verbatim>\<open>second\<close> child is accepted, and the restored container holds a split with
  one child.
\<close>

theorem deserialize_split_with_one_child:
  "c_content (container_deserialize_state title_deserialize 0
       [(''type'', VString ''split''),
        (''first'', VDict [(''type'', VString ''terminal''), (''title'', VString ''sh'')])])
     = Some (SplitContainer 0 HORIZONTAL 0.5 None (Some (TerminalPage 1 ''sh'')) None)
   \<and> \<not> fully_populated
         (SplitContainer 0 HORIZONTAL 0.5 None (Some (TerminalPage 1 ''sh'')) None)"
  by (simp add: container_deserialize_state_def deserialize_state.simps deserialize_node.simps
        Let_def lookup_s_def lookup_i_def lookup_d_def lookup_value_def title_deserialize_def
        update_active_terminal_def set_active_terminal_def new_container_def)

text \<open>
  Between the destruction of a page from outside and the idle callback that it schedules,
  the split that held the page has one child; the operations that run in between find
  it so. Here the first terminal of the inner split of the tree of Scenario E is
  destroyed.
\<close>

lemma one_child_until_deferred_collapse:
  "reachable_from complete_record (terminal_destroyed scenario_e_container (TerminalPage 3 ''b''))
   \<and> c_collapse_idle (terminal_destroyed scenario_e_container (TerminalPage 3 ''b''))
   \<and> c_content (terminal_destroyed scenario_e_container (TerminalPage 3 ''b''))
       = Some (SplitContainer 0 HORIZONTAL 0.5 None (Some (TerminalPage 1 ''a''))
                 (Some (SplitContainer 2 VERTICAL 0.3 None None (Some (TerminalPage 4 ''c'')))))"
proof -
  have "reachable_from complete_record scenario_e_container"
    unfolding scenario_e_container_def
    by (rule reachable_from.r_restore) (rule complete_scenario_e)
  then have "reachable_from complete_record
               (terminal_destroyed scenario_e_container (TerminalPage 3 ''b''))"
    by (rule reachable_from.r_terminal_destroyed)
  then show ?thesis
    by (simp add: terminal_destroyed_def on_terminal_destroyed_def container_destroy_def widget_destroy_def Let_def
          scenario_e_content scenario_e_fields is_split_def)
qed

text \<open>
  Closing the tab ends the life of the container: \<^verbatim>\<open>_close_tab()\<close> destroys the terminals
  and the container, and the field \<^verbatim>\<open>_content\<close> is left referring to the emptied tree.
\<close>

lemma close_tab_leaves_emptied_tree:
  "c_destroyed (close_tab scenario_e_container)
   \<and> c_content (close_tab scenario_e_container)
       = Some (SplitContainer 0 HORIZONTAL 0.5 None None
                 (Some (SplitContainer 2 VERTICAL 0.3 None None None)))
   \<and> c_active_terminal (close_tab scenario_e_container) = Some (TerminalPage 1 ''a'')
   \<and> container_get_all_terminals (close_tab scenario_e_container) = []"
  by (simp add: close_tab_def container_destroy_def widget_destroy_def
        container_terminals_leaves scenario_e_content scenario_e_fields)

text \<open>
  C1, amended. A container starts empty or is restored from a record in which every
  split node has both children, each of them a terminal record or again such a split
  record (these are the records that restore to a tree in which every split has both
  children). From there it goes through any sequence of: \<^verbatim>\<open>set_terminal\<close> on a live
  container, \<^verbatim>\<open>split\<close>, \<^verbatim>\<open>unsplit\<close> (returning or throwing), \<^verbatim>\<open>collapse_terminal\<close>,
  \<^verbatim>\<open>close_active_terminal\<close>, \<^verbatim>\<open>adjust_split_position\<close>, the user dragging a divider,
  focus moving to any widget, any change of the focus marks of the splits, the handler
  of \<^verbatim>\<open>set-focus-child\<close>, the destruction of any page from outside, and the idle callback.
  Closing the tab, which destroys the container, is not among the steps. In every state
  that is reached, every split of the tree has both children, unless a deferred collapse
  is pending; and when one is pending, every split of the tree has both children once
  the idle callback has run.
\<close>

theorem reachable_fully_populated:
  "reachable_from complete_record c \<Longrightarrow>
   (\<not> c_collapse_idle c \<longrightarrow> (\<forall>w. c_content c = Some w \<longrightarrow> fully_populated w))
   \<and> (\<forall>w. c_content (collapse_idle_callback c) = Some w \<longrightarrow> fully_populated w)"
proof -
  assume r: "reachable_from complete_record c"
  from reachable_consistent[OF r]
  have "\<not> c_collapse_idle c \<longrightarrow> (\<forall>w. c_content c = Some w \<longrightarrow> fully_populated w)"
    by (simp add: consistent_def settled_def)
  moreover from reachable_consistent[OF reachable_from.r_idle[OF r]]
  have "\<forall>w. c_content (collapse_idle_callback c) = Some w \<longrightarrow> fully_populated w"
    by (simp add: consistent_def settled_def)
  ultimately show ?thesis by blast
qed

theorem reachable_fully_populated_witness:
  "reachable_from complete_record scenario_e_container
   \<and> \<not> c_collapse_idle scenario_e_container
   \<and> c_content scenario_e_container
       = Some (SplitContainer 0 HORIZONTAL 0.5 None (Some (TerminalPage 1 ''a''))
                 (Some (SplitContainer 2 VERTICAL 0.3 None
                          (Some (TerminalPage 3 ''b'')) (Some (TerminalPage 4 ''c'')))))
   \<and> fully_populated
         (SplitContainer 0 HORIZONTAL 0.5 None (Some (TerminalPage 1 ''a''))
            (Some (SplitContainer 2 VERTICAL 0.3 None
                     (Some (TerminalPage 3 ''b'')) (Some (TerminalPage 4 ''c'')))))
   \<and> reachable_from complete_record
         (terminal_destroyed scenario_e_container (TerminalPage 3 ''b''))
   \<and> c_content (collapse_idle_callback
                  (terminal_destroyed scenario_e_container (TerminalPage 3 ''b'')))
       = Some (SplitContainer 0 HORIZONTAL 0.5 None
                 (Some (TerminalPage 1 ''a'')) (Some (TerminalPage 4 ''c'')))
   \<and> fully_populated
         (SplitContainer 0 HORIZONTAL 0.5 None
            (Some (TerminalPage 1 ''a'')) (Some (TerminalPage 4 ''c'')))"
proof -
  let ?e = "scenario_e_container"
  let ?d = "terminal_destroyed ?e (TerminalPage 3 ''b'')"
  have r0: "reachable_from complete_record ?e"
    unfolding scenario_e_container_def
    by (rule reachable_from.r_restore)
       (simp add: complete_record_def scenario_e_record_def well_formed_split.simps
          well_formed_node.simps lookup_s_def lookup_value_def)
  have r1: "reachable_from complete_record ?d"
    by (rule reachable_from.r_terminal_destroyed[OF r0])
  have cd: "c_content ?d
       = Some (SplitContainer 0 HORIZONTAL 0.5 None (Some (TerminalPage 1 ''a''))
                 (Some (SplitContainer 2 VERTICAL 0.3 None None (Some (TerminalPage 4 ''c'')))))"
    and fd: "c_collapse_idle ?d" "\<not> c_destroyed ?d"
    by (simp_all add: terminal_destroyed_def on_terminal_destroyed_def container_destroy_def widget_destroy_def
          Let_def scenario_e_content scenario_e_fields is_split_def)
  have ci: "c_content (collapse_idle_callback ?d)
       = Some (SplitContainer 0 HORIZONTAL 0.5 None
                 (Some (TerminalPage 1 ''a'')) (Some (TerminalPage 4 ''c'')))"
    by (simp add: collapse_idle_callback_def collapse_empty_splits_def container_destroy_def Let_def cd fd
          collapse_split_recursive.simps(1) collapse_finish_def grab_focus_def
          update_active_terminal_def set_active_terminal_def in_slot_def)
  from reachable_fully_populated[OF r0] reachable_fully_populated[OF r1]
    r0 r1 scenario_e_content scenario_e_fields(2) ci
  show ?thesis by simp
qed

subsection \<open>The active terminal in every reachable state\<close>


text \<open>
  A split without children below the top of the tree does the same as soon as it takes
  the focus: the tab restored from a record with a terminal and a split record without
  children has an active terminal, and has none after \<^verbatim>\<open>grab_focus()\<close> on that split.
\<close>

lemma empty_split_takes_focus:
  "reachable_from (\<lambda>d. True)
     (grab_focus with_empty_split (SplitContainer 2 HORIZONTAL 0.5 None None None))
   \<and> c_active_terminal with_empty_split = Some (TerminalPage 1 ''a'')
   \<and> c_content (grab_focus with_empty_split (SplitContainer 2 HORIZONTAL 0.5 None None None))
       = Some (SplitContainer 0 HORIZONTAL 0.5 (Some Second) (Some (TerminalPage 1 ''a''))
                 (Some (SplitContainer 2 HORIZONTAL 0.5 None None None)))
   \<and> c_active_terminal
         (grab_focus with_empty_split (SplitContainer 2 HORIZONTAL 0.5 None None None))
       = None"
proof -
  have "reachable_from (\<lambda>d. True) with_empty_split"
    unfolding with_empty_split_def by (rule reachable_from.r_restore) simp
  then have "reachable_from (\<lambda>d. True)
      (grab_focus with_empty_split (SplitContainer 2 HORIZONTAL 0.5 None None None))"
    by (rule reachable_from.r_focus)
  moreover have "c_active_terminal with_empty_split = Some (TerminalPage 1 ''a'')
   \<and> c_content (grab_focus with_empty_split (SplitContainer 2 HORIZONTAL 0.5 None None None))
       = Some (SplitContainer 0 HORIZONTAL 0.5 (Some Second) (Some (TerminalPage 1 ''a''))
                 (Some (SplitContainer 2 HORIZONTAL 0.5 None None None)))
   \<and> c_active_terminal
         (grab_focus with_empty_split (SplitContainer 2 HORIZONTAL 0.5 None None None))
       = None"
    by (simp add: with_empty_split_def container_deserialize_state_def deserialize_state.simps
          deserialize_node.simps Let_def lookup_s_def lookup_i_def lookup_d_def lookup_value_def
          title_deserialize_def update_active_terminal_def set_active_terminal_def
          new_container_def grab_focus_def in_slot_def)
  ultimately show ?thesis by blast
qed

text \<open>
  Between the destruction of a page from outside and the idle callback that it schedules,
  the active terminal can be the destroyed page. Here the tab of Scenario E is restored;
  its active terminal is the first terminal, which does not hold the focus; that
  terminal is destroyed.
\<close>

lemma destroyed_page_active_until_deferred_collapse:
  "reachable_from inhabited_record
     (terminal_destroyed scenario_e_container (TerminalPage 1 ''a''))
   \<and> c_collapse_idle (terminal_destroyed scenario_e_container (TerminalPage 1 ''a''))
   \<and> c_active_terminal (terminal_destroyed scenario_e_container (TerminalPage 1 ''a''))
       = Some (TerminalPage 1 ''a'')
   \<and> container_get_all_terminals
         (terminal_destroyed scenario_e_container (TerminalPage 1 ''a''))
       = [TerminalPage 3 ''b'', TerminalPage 4 ''c'']"
proof -
  have "reachable_from inhabited_record scenario_e_container"
    unfolding scenario_e_container_def
    by (rule reachable_from.r_restore)
       (rule complete_record_inhabited[OF complete_scenario_e])
  then have "reachable_from inhabited_record
               (terminal_destroyed scenario_e_container (TerminalPage 1 ''a''))"
    by (rule reachable_from.r_terminal_destroyed)
  then show ?thesis
    by (simp add: terminal_destroyed_def on_terminal_destroyed_def container_destroy_def widget_destroy_def Let_def
          scenario_e_content scenario_e_fields is_split_def container_terminals_leaves)
qed



subsection \<open>Ways into a tree of distinct widgets\<close>

lemma subtree_ids:
  "subtree_at pth w = Some x \<Longrightarrow> set (widget_ids x) \<subseteq> set (widget_ids w)"
proof (induction pth w rule: subtree_at.induct)
  case (1 w) then show ?case by simp
next
  case (2 sd pth i p) then show ?case by simp
next
  case (3 pth i ori pos ac c1 c2)
  then show ?case by (cases c1) auto
next
  case (4 pth i ori pos ac c1 c2)
  then show ?case by (cases c2) auto
qed

lemma obj_id_in_ids [simp]: "obj_id w \<in> set (widget_ids w)"
  by (cases w) simp_all

lemma subtree_id: "subtree_at pth w = Some x \<Longrightarrow> obj_id x \<in> set (widget_ids w)"
  using subtree_ids[of pth w x] by auto

lemma subtree_unique:
  "distinct (widget_ids w) \<Longrightarrow> subtree_at p w = Some x \<Longrightarrow> subtree_at q w = Some y \<Longrightarrow>
   obj_id x = obj_id y \<Longrightarrow> p = q"
proof (induction w arbitrary: p q)
  case (TerminalPage i pg)
  then show ?case by (cases p; cases q) auto
next
  case (SplitContainer i ori pos ac c1 c2)
  let ?ids1 = "case c1 of None \<Rightarrow> [] | Some a \<Rightarrow> widget_ids a"
  let ?ids2 = "case c2 of None \<Rightarrow> [] | Some b \<Rightarrow> widget_ids b"
  from SplitContainer.prems(1) have d: "i \<notin> set ?ids1" "i \<notin> set ?ids2"
    "distinct ?ids1" "distinct ?ids2" "set ?ids1 \<inter> set ?ids2 = {}"
    by auto
  have deep: "obj_id z \<in> set (if sd = First then ?ids1 else ?ids2)"
    if "subtree_at (sd # r) (SplitContainer i ori pos ac c1 c2) = Some z" for sd r z
    using that subtree_id[of r _ z]
    by (cases sd; cases c1; cases c2) auto
  show ?case
  proof (cases p)
    case Nil
    with SplitContainer.prems(2) have x: "obj_id x = i" by auto
    show ?thesis
    proof (cases q)
      case Nil with \<open>p = []\<close> show ?thesis by simp
    next
      case (Cons sd r)
      with deep[of sd r y] SplitContainer.prems(3,4) x d show ?thesis
        by (auto split: if_splits)
    qed
  next
    case pc: (Cons sp rp)
    show ?thesis
    proof (cases q)
      case Nil
      with SplitContainer.prems(3) have "obj_id y = i" by auto
      with deep[of sp rp x] SplitContainer.prems(2,4) pc d show ?thesis
        by (auto split: if_splits)
    next
      case qc: (Cons sq rq)
      have same: "sp = sq"
        using deep[of sp rp x] deep[of sq rq y] SplitContainer.prems(2,3,4) pc qc d(5)
        by (cases sp; cases sq) auto
      show ?thesis
      proof (cases sp)
        case First
        with same pc qc SplitContainer.prems obtain a where a: "c1 = Some a"
          "subtree_at rp a = Some x" "subtree_at rq a = Some y"
          by (cases c1) auto
        with SplitContainer.IH(1)[of a rp rq] d(3) SplitContainer.prems(4)
        have "rp = rq" by simp
        with same pc qc show ?thesis by simp
      next
        case Second
        with same pc qc SplitContainer.prems obtain b where b: "c2 = Some b"
          "subtree_at rp b = Some x" "subtree_at rq b = Some y"
          by (cases c2) auto
        with SplitContainer.IH(2)[of b rp rq] d(4) SplitContainer.prems(4)
        have "rp = rq" by simp
        with same pc qc show ?thesis by simp
      qed
    qed
  qed
qed

lemma subtree_append:
  "subtree_at (p @ q) w = (case subtree_at p w of None \<Rightarrow> None | Some x \<Rightarrow> subtree_at q x)"
proof (induction p w rule: subtree_at.induct)
  case (1 w) show ?case by simp
next
  case (2 sd pth i pg) show ?case by simp
next
  case (3 pth i ori pos ac c1 c2)
  then show ?case by (cases c1) auto
next
  case (4 pth i ori pos ac c1 c2)
  then show ?case by (cases c2) auto
qed

lemma leaves_subtree:
  "t \<in> set (leaves w) \<Longrightarrow> \<exists>pth. subtree_at pth w = Some t"
proof (induction w)
  case (TerminalPage i p)
  then have "subtree_at [] (TerminalPage i p) = Some t" by simp
  then show ?case by blast
next
  case (SplitContainer i ori pos ac c1 c2)
  from SplitContainer.prems
  consider a where "c1 = Some a" "t \<in> set (leaves a)" | b where "c2 = Some b" "t \<in> set (leaves b)"
    by (cases c1; cases c2) auto
  then show ?case
  proof cases
    case 1
    with SplitContainer.IH(1)[of a] obtain pth where "subtree_at pth a = Some t" by auto
    with 1 have "subtree_at (First # pth) (SplitContainer i ori pos ac c1 c2) = Some t" by simp
    then show ?thesis by blast
  next
    case 2
    with SplitContainer.IH(2)[of b] obtain pth where "subtree_at pth b = Some t" by auto
    with 2 have "subtree_at (Second # pth) (SplitContainer i ori pos ac c1 c2) = Some t" by simp
    then show ?thesis by blast
  qed
qed

lemma find_parent_exists:
  "subtree_at pth w = Some x \<Longrightarrow> pth \<noteq> [] \<Longrightarrow> \<exists>r. find_parent_split_recursive w x = Some r"
proof (induction pth w rule: subtree_at.induct)
  case (1 w) then show ?case by simp
next
  case (2 sd pth i p) then show ?case by simp
next
  case (3 pth i ori pos ac c1 c2)
  then obtain a where a: "c1 = Some a" "subtree_at pth a = Some x" by (cases c1) auto
  show ?case
  proof (cases "pth = []")
    case True
    with a show ?thesis by (simp add: find_unfold)
  next
    case False
    with 3(1)[OF a(1)] a obtain r where "find_parent_split_recursive a x = Some r" by auto
    with a show ?thesis
      by (cases r) (auto simp: find_unfold find_in_slot_Some first_found_def below_def)
  qed
next
  case (4 pth i ori pos ac c1 c2)
  then obtain b where b: "c2 = Some b" "subtree_at pth b = Some x" by (cases c2) auto
  show ?case
  proof (cases "pth = []")
    case True
    with b show ?thesis by (simp add: find_unfold)
  next
    case False
    with 4(1)[OF b(1)] b obtain r where "find_parent_split_recursive b x = Some r" by auto
    with b show ?thesis
      by (cases r; cases "find_in_slot First c1 x")
         (auto simp: find_unfold find_in_slot_Some first_found_def below_def)
  qed
qed

subsection \<open>Rewriting at the end of a way\<close>

lemma forget_forget [simp]: "forget_focus (forget_focus w) = forget_focus w"
proof (induction w)
  case (TerminalPage i p) show ?case by simp
next
  case (SplitContainer i ori pos ac c1 c2)
  then show ?case by (cases c1; cases c2) auto
qed

lemma forget_set_focus_path [simp]: "forget_focus (set_focus_path x w) = forget_focus w"
proof (induction w)
  case (TerminalPage i p) show ?case by simp
next
  case (SplitContainer i ori pos ac c1 c2)
  have "forget_focus (forget_focus (SplitContainer i ori pos ac c1 c2))
        = forget_focus (SplitContainer i ori pos ac c1 c2)"
    by (rule forget_forget)
  then show ?case
    using SplitContainer.IH
    by (cases c1; cases c2) (auto simp: in_slot_def)
qed

lemma forget_grab_focus [simp]:
  "map_option forget_focus (c_content (grab_focus c w)) = map_option forget_focus (c_content c)"
  by (auto simp: grab_focus_def split: option.splits)

lemma update_at_subtree:
  "subtree_at p t = Some g \<Longrightarrow> update_at p f t = update_at p (\<lambda>_. f g) t"
proof (induction p f t rule: update_at.induct)
  case (1 f w) then show ?case by simp
next
  case (2 sd pth f i p) then show ?case by simp
next
  case (3 pth f i ori pos ac c1 c2) then show ?case by (cases c1) auto
next
  case (4 pth f i ori pos ac c1 c2) then show ?case by (cases c2) auto
qed

lemma forget_replace_at:
  "forget_focus (replace_at p new t) = replace_at p (forget_focus new) (forget_focus t)"
  unfolding replace_at_def
proof (induction p "\<lambda>_::'a widget. new" t rule: update_at.induct)
  case (1 w) show ?case by simp
next
  case (2 sd pth i p) show ?case by simp
next
  case (3 pth i ori pos ac c1 c2) then show ?case by (cases c1) auto
next
  case (4 pth i ori pos ac c1 c2) then show ?case by (cases c2) auto
qed

lemma update_at_append:
  "update_at (p @ q) f t = update_at p (update_at q f) t"
proof (induction p "update_at q f" t rule: update_at.induct)
  case (1 w) show ?case by simp
next
  case (2 sd pth i p) show ?case by (cases q) simp_all
next
  case (3 pth i ori pos ac c1 c2) then show ?case by (cases c1) auto
next
  case (4 pth i ori pos ac c1 c2) then show ?case by (cases c2) auto
qed

lemma height_forget [simp]: "height (forget_focus w) = height w"
proof (induction w)
  case (TerminalPage i p) show ?case by simp
next
  case (SplitContainer i ori pos ac c1 c2)
  then show ?case by (cases c1; cases c2) auto
qed

lemma height_replace_at:
  "subtree_at p t = Some x \<Longrightarrow> height x = Suc (height y) \<Longrightarrow>
   height (replace_at p y t) \<le> height t \<and> height t \<le> Suc (height (replace_at p y t))"
  unfolding replace_at_def
proof (induction p "\<lambda>_::'a widget. y" t rule: update_at.induct)
  case (1 w) then show ?case by simp
next
  case (2 sd pth i p) then show ?case by simp
next
  case (3 pth i ori pos ac c1 c2) then show ?case by (cases c1; cases c2) auto
next
  case (4 pth i ori pos ac c1 c2) then show ?case by (cases c1; cases c2) auto
qed

lemma same_obj_sym: "same_obj a b = same_obj b a"
  by (cases a; cases b) auto

lemma replace_child_first:
  "get_child1 gp = Some parent \<Longrightarrow> is_split_container gp \<Longrightarrow>
   forget_focus (replace_child gp parent sib) = forget_focus (replace_at [First] sib gp)"
  by (cases gp) (auto simp: replace_child_def replace_at_def)

lemma replace_child_second:
  "get_child2 gp = Some parent \<Longrightarrow> is_split_container gp \<Longrightarrow>
   \<not> same_obj (get_child1 gp) (Some parent) \<Longrightarrow>
   forget_focus (replace_child gp parent sib) = forget_focus (replace_at [Second] sib gp)"
  by (cases gp) (auto simp: replace_child_def replace_at_def same_obj_sym[of "Some parent"])

text \<open>Under distinct identities, a child found by identity is the widget itself.\<close>

lemma child_by_identity:
  assumes d: "distinct (widget_ids tree)"
    and g: "subtree_at pth tree = Some g" "is_split_container g"
    and m: "same_obj (get_child1 g) (Some x) \<or> same_obj (get_child2 g) (Some x)"
    and x: "subtree_at xp tree = Some x"
  shows "(same_obj (get_child1 g) (Some x) \<longrightarrow> get_child1 g = Some x \<and> xp = pth @ [First])
       \<and> (\<not> same_obj (get_child1 g) (Some x) \<longrightarrow> get_child2 g = Some x \<and> xp = pth @ [Second])"
proof -
  obtain i ori pos ac c1 c2 where gs: "g = SplitContainer i ori pos ac c1 c2"
    using g(2) by (cases g) auto
  have at: "subtree_at (pth @ [sd]) tree = Some y \<Longrightarrow> obj_id y = obj_id x \<Longrightarrow>
            xp = pth @ [sd] \<and> y = x" for sd y
  proof -
    assume a: "subtree_at (pth @ [sd]) tree = Some y" "obj_id y = obj_id x"
    from subtree_unique[OF d x a(1)] a(2) have "xp = pth @ [sd]" by simp
    with a(1) x show ?thesis by simp
  qed
  show ?thesis
  proof (cases "same_obj (get_child1 g) (Some x)")
    case True
    then obtain a where a: "c1 = Some a" "obj_id a = obj_id x"
      using gs by (cases c1) auto
    then have "subtree_at (pth @ [First]) tree = Some a"
      using g(1) gs by (simp add: subtree_append)
    from at[OF this a(2)] a gs True
    show ?thesis by simp
  next
    case False
    with m have "same_obj (get_child2 g) (Some x)" by simp
    then obtain b where b: "c2 = Some b" "obj_id b = obj_id x"
      using gs by (cases c2) auto
    then have "subtree_at (pth @ [Second]) tree = Some b"
      using g(1) gs by (simp add: subtree_append)
    from at[OF this b(2)] b gs False
    show ?thesis by simp
  qed
qed

subsection \<open>Collapsing around a terminal\<close>

lemma height_terminal: "is_terminal t \<Longrightarrow> height t = 0"
  by (cases t) simp_all

lemma collapse_terminal_found:
  assumes tree: "c_content c = Some tree" "is_split_container tree"
    and dist: "distinct (widget_ids tree)"
    and mem: "terminal \<in> set (leaves tree)"
  shows "\<exists>pth parent.
           find_parent_split c terminal = Some (pth, parent)
         \<and> subtree_at pth tree = Some parent
         \<and> (get_child1 parent = Some terminal \<or> get_child2 parent = Some terminal)
         \<and> (\<forall>sib. (get_child1 parent = Some terminal \<and> get_child2 parent = Some sib)
                  \<or> (get_child1 parent = Some sib \<and> get_child2 parent = Some terminal) \<longrightarrow>
                map_option forget_focus (c_content (collapse_terminal c terminal))
                  = Some (forget_focus (replace_at pth sib tree))
              \<and> height parent = Suc (height sib))"
proof -
  have tt: "is_terminal terminal" using mem by (rule leaves_terminal)
  from leaves_subtree[OF mem] obtain tp where tp: "subtree_at tp tree = Some terminal" by blast
  have tpne: "tp \<noteq> []" using tp tree(2) tt by (cases tp) auto
  from find_parent_exists[OF tp tpne] obtain pth parent
    where f: "find_parent_split_recursive tree terminal = Some (pth, parent)" by force
  have fc: "find_parent_split c terminal = Some (pth, parent)"
    using f tree by (simp add: find_parent_split_def)
  from find_parent_sound[OF f] have par: "subtree_at pth tree = Some parent"
    "is_split_container parent"
    and m: "same_obj (get_child1 parent) (Some terminal) \<or> same_obj (get_child2 parent) (Some terminal)"
    by auto
  from child_by_identity[OF dist par m tp]
  have cb: "same_obj (get_child1 parent) (Some terminal) \<longrightarrow>
              get_child1 parent = Some terminal \<and> tp = pth @ [First]"
    "\<not> same_obj (get_child1 parent) (Some terminal) \<longrightarrow>
              get_child2 parent = Some terminal \<and> tp = pth @ [Second]"
    by auto
  have holds: "get_child1 parent = Some terminal \<or> get_child2 parent = Some terminal"
    using cb by blast
  have main: "map_option forget_focus (c_content (collapse_terminal c terminal))
                  = Some (forget_focus (replace_at pth sib tree))
              \<and> height parent = Suc (height sib)"
    if kids: "(get_child1 parent = Some terminal \<and> get_child2 parent = Some sib)
            \<or> (get_child1 parent = Some sib \<and> get_child2 parent = Some terminal)" for sib
  proof -
    have sibling: "(if same_obj (get_child1 parent) (Some terminal)
                    then get_child2 parent else get_child1 parent) = Some sib"
    proof (cases "same_obj (get_child1 parent) (Some terminal)")
      case True
      with cb(1) kids show ?thesis by auto
    next
      case False
      with kids show ?thesis by auto
    qed
    have hp: "height parent = Suc (height sib)"
      using kids par(2) height_terminal[OF tt] by (cases parent) auto
    let ?c1 = "c\<lparr>c_restructuring := True\<rparr>"
    let ?c2 = "if same_obj (Some parent) (c_content c)
               then ?c1\<lparr>c_content := Some sib\<rparr>
               else (case find_parent_split c parent of
                       Some (at_grandparent, grandparent) \<Rightarrow>
                         ?c1\<lparr>c_content :=
                               map_option
                                 (update_at at_grandparent (\<lambda>g. replace_child g parent sib))
                                 (c_content c)\<rparr>
                     | None \<Rightarrow> ?c1)"
    have ct: "collapse_terminal c terminal =
            update_active_terminal ((grab_focus ?c2 sib)\<lparr>c_restructuring := False\<rparr>)"
      using tree fc sibling
      by (simp add: collapse_terminal_def is_split_def Let_def del: same_obj.simps)
    have after: "map_option forget_focus (c_content (collapse_terminal c terminal))
                 = map_option forget_focus (c_content ?c2)"
      unfolding ct by simp
    have c2: "map_option forget_focus (c_content ?c2) = Some (forget_focus (replace_at pth sib tree))"
    proof (cases "pth = []")
      case True
      with par have "parent = tree" by simp
      with True tree show ?thesis by (simp add: replace_at_def)
    next
      case False
      have top: "subtree_at [] tree = Some tree" by simp
      have notroot: "\<not> same_obj (Some parent) (c_content c)"
      proof
        assume "same_obj (Some parent) (c_content c)"
        with tree have "obj_id parent = obj_id tree" by simp
        from subtree_unique[OF dist par(1) top this] False show False by simp
      qed
      from find_parent_exists[OF par(1) False] obtain gpth gp
        where fg: "find_parent_split_recursive tree parent = Some (gpth, gp)" by force
      have fgc: "find_parent_split c parent = Some (gpth, gp)"
        using fg tree by (simp add: find_parent_split_def)
      from find_parent_sound[OF fg] have gpar: "subtree_at gpth tree = Some gp"
        "is_split_container gp"
        and gm: "same_obj (get_child1 gp) (Some parent) \<or> same_obj (get_child2 gp) (Some parent)"
        by auto
      from child_by_identity[OF dist gpar gm par(1)]
      have gcb: "same_obj (get_child1 gp) (Some parent) \<longrightarrow>
                   get_child1 gp = Some parent \<and> pth = gpth @ [First]"
        "\<not> same_obj (get_child1 gp) (Some parent) \<longrightarrow>
                   get_child2 gp = Some parent \<and> pth = gpth @ [Second]"
        by auto
      have rc: "\<exists>sd. pth = gpth @ [sd] \<and>
                  forget_focus (replace_child gp parent sib) = forget_focus (replace_at [sd] sib gp)"
      proof (cases "same_obj (get_child1 gp) (Some parent)")
        case True
        with gcb(1) replace_child_first[of gp parent sib] gpar(2) show ?thesis by blast
      next
        case False
        with gcb(2) replace_child_second[of gp parent sib] gpar(2) show ?thesis by blast
      qed
      then obtain sd where sd: "pth = gpth @ [sd]"
        "forget_focus (replace_child gp parent sib) = forget_focus (replace_at [sd] sib gp)"
        by blast
      have "forget_focus (update_at gpth (\<lambda>g. replace_child g parent sib) tree)
            = forget_focus (replace_at gpth (replace_child gp parent sib) tree)"
        unfolding replace_at_def
        by (subst update_at_subtree[OF gpar(1)]) (rule refl)
      also have "\<dots> = forget_focus (replace_at gpth (replace_at [sd] sib gp) tree)"
        by (simp add: forget_replace_at sd(2))
      also have "replace_at gpth (replace_at [sd] sib gp) tree
                 = update_at gpth (update_at [sd] (\<lambda>_. sib)) tree"
        unfolding replace_at_def
        by (subst (2) update_at_subtree[OF gpar(1)]) (rule refl)
      also have "\<dots> = replace_at pth sib tree"
        by (simp add: replace_at_def sd(1) update_at_append)
      finally show ?thesis
        using notroot fgc tree by simp
    qed
    from after c2 hp show ?thesis by simp
  qed
  from fc par(1) holds main show ?thesis by blast
qed

lemma collapse_terminal_height:
  assumes "subtree_at pth tree = Some parent" and "height parent = Suc (height sib)"
  shows "height (replace_at pth sib tree) \<le> height tree
       \<and> height tree \<le> Suc (height (replace_at pth sib tree))
       \<and> (pth = [] \<longrightarrow> height tree = Suc (height (replace_at pth sib tree)))"
proof -
  have "pth = [] \<longrightarrow> height tree = Suc (height (replace_at pth sib tree))"
    using assms by (auto simp: replace_at_def)
  with height_replace_at[OF assms] show ?thesis by simp
qed

text \<open>
  C6, as stated, fails in the part on depth: when the parent split is nested and another
  branch of the tree is at least as deep, the tree is as deep after the collapse as
  before. Here T1 is collapsed out of the left branch while the right branch keeps
  three levels.
\<close>

theorem collapse_terminal_keeps_depth:
  "c_content (collapse_terminal
      ((new_container 9)
         \<lparr>c_content := Some (SplitContainer 5 HORIZONTAL 0.5 None
             (Some (SplitContainer 6 VERTICAL 0.5 None
                      (Some (TerminalPage 0 ())) (Some (TerminalPage 1 ()))))
             (Some (SplitContainer 7 VERTICAL 0.5 None
                      (Some (TerminalPage 2 ()))
                      (Some (SplitContainer 8 HORIZONTAL 0.5 None
                               (Some (TerminalPage 3 ())) (Some (TerminalPage 4 ()))))))),
           c_active_terminal := Some (TerminalPage 0 ())\<rparr>)
      (TerminalPage 0 ()))
   = Some (SplitContainer 5 HORIZONTAL 0.5 (Some First)
             (Some (TerminalPage 1 ()))
             (Some (SplitContainer 7 VERTICAL 0.5 None
                      (Some (TerminalPage 2 ()))
                      (Some (SplitContainer 8 HORIZONTAL 0.5 None
                               (Some (TerminalPage 3 ())) (Some (TerminalPage 4 ())))))))
   \<and> height (SplitContainer 5 HORIZONTAL 0.5 None
             (Some (SplitContainer 6 VERTICAL 0.5 None
                      (Some (TerminalPage 0 ())) (Some (TerminalPage 1 ()))))
             (Some (SplitContainer 7 VERTICAL 0.5 None
                      (Some (TerminalPage 2 ()))
                      (Some (SplitContainer 8 HORIZONTAL 0.5 None
                               (Some (TerminalPage 3 ())) (Some (TerminalPage 4 ()))))))) = 3
   \<and> height (SplitContainer 5 HORIZONTAL 0.5 (Some First)
             (Some (TerminalPage 1 ()))
             (Some (SplitContainer 7 VERTICAL 0.5 None
                      (Some (TerminalPage 2 ()))
                      (Some (SplitContainer 8 HORIZONTAL 0.5 None
                               (Some (TerminalPage 3 ())) (Some (TerminalPage 4 ()))))))) = 3"
  by (simp add: collapse_terminal_def is_split_def new_container_def find_parent_split_def
        find_unfold find_in_slot_Some first_found_def below_def Let_def replace_child_def
        grab_focus_def in_slot_def update_active_terminal_def set_active_terminal_def)

text \<open>
  C6, amended. When the container is not split, \<^verbatim>\<open>collapse_terminal\<close> changes nothing. In
  a split container whose tree is made of distinct widgets, for every terminal of the tree
  the search finds the split that holds the terminal, and when the other slot of that
  split holds a sibling, \<^verbatim>\<open>collapse_terminal(terminal)\<close> leaves the tree with that split,
  at the top or nested, replaced by the sibling (the focus marks aside), so the sibling
  moves up one level. The tree as a whole loses at most one level, and exactly one when
  the replaced split was the top of the tree.
\<close>

theorem collapse_terminal_replaces_parent:
  "(\<not> is_split c \<longrightarrow> collapse_terminal c terminal = c)
   \<and> (c_content c = Some tree \<longrightarrow> is_split_container tree \<longrightarrow>
      distinct (widget_ids tree) \<longrightarrow> terminal \<in> set (container_get_all_terminals c) \<longrightarrow>
      (\<exists>pth parent.
           find_parent_split c terminal = Some (pth, parent)
         \<and> subtree_at pth tree = Some parent
         \<and> (get_child1 parent = Some terminal \<or> get_child2 parent = Some terminal)
         \<and> (\<forall>sib. (get_child1 parent = Some terminal \<and> get_child2 parent = Some sib)
                  \<or> (get_child1 parent = Some sib \<and> get_child2 parent = Some terminal) \<longrightarrow>
                map_option forget_focus (c_content (collapse_terminal c terminal))
                  = Some (forget_focus (replace_at pth sib tree))
              \<and> height (replace_at pth sib tree) \<le> height tree
              \<and> height tree \<le> Suc (height (replace_at pth sib tree))
              \<and> (pth = [] \<longrightarrow> height tree = Suc (height (replace_at pth sib tree))))))"
proof (intro conjI impI)
  assume "\<not> is_split c"
  then show "collapse_terminal c terminal = c" by (simp add: collapse_terminal_def)
next
  assume h: "c_content c = Some tree" "is_split_container tree"
    "distinct (widget_ids tree)" "terminal \<in> set (container_get_all_terminals c)"
  then have mem: "terminal \<in> set (leaves tree)"
    by (simp add: container_terminals_leaves)
  from collapse_terminal_found[OF h(1-3) mem] obtain pth parent
    where r: "find_parent_split c terminal = Some (pth, parent)"
      "subtree_at pth tree = Some parent"
      "get_child1 parent = Some terminal \<or> get_child2 parent = Some terminal"
    and s: "\<And>sib. (get_child1 parent = Some terminal \<and> get_child2 parent = Some sib)
                  \<or> (get_child1 parent = Some sib \<and> get_child2 parent = Some terminal) \<Longrightarrow>
            map_option forget_focus (c_content (collapse_terminal c terminal))
              = Some (forget_focus (replace_at pth sib tree))
            \<and> height parent = Suc (height sib)"
    by blast
  have "map_option forget_focus (c_content (collapse_terminal c terminal))
          = Some (forget_focus (replace_at pth sib tree))
        \<and> height (replace_at pth sib tree) \<le> height tree
        \<and> height tree \<le> Suc (height (replace_at pth sib tree))
        \<and> (pth = [] \<longrightarrow> height tree = Suc (height (replace_at pth sib tree)))"
    if "(get_child1 parent = Some terminal \<and> get_child2 parent = Some sib)
        \<or> (get_child1 parent = Some sib \<and> get_child2 parent = Some terminal)" for sib
    using s[OF that] collapse_terminal_height[OF r(2), of sib] by simp
  with r show "\<exists>pth parent.
           find_parent_split c terminal = Some (pth, parent)
         \<and> subtree_at pth tree = Some parent
         \<and> (get_child1 parent = Some terminal \<or> get_child2 parent = Some terminal)
         \<and> (\<forall>sib. (get_child1 parent = Some terminal \<and> get_child2 parent = Some sib)
                  \<or> (get_child1 parent = Some sib \<and> get_child2 parent = Some terminal) \<longrightarrow>
                map_option forget_focus (c_content (collapse_terminal c terminal))
                  = Some (forget_focus (replace_at pth sib tree))
              \<and> height (replace_at pth sib tree) \<le> height tree
              \<and> height tree \<le> Suc (height (replace_at pth sib tree))
              \<and> (pth = [] \<longrightarrow> height tree = Suc (height (replace_at pth sib tree))))"
    by blast
qed

theorem collapse_terminal_replaces_parent_witness:
  "c_content scenario_container = Some scenario_tree
   \<and> is_split_container scenario_tree
   \<and> distinct (widget_ids scenario_tree)
   \<and> TerminalPage 0 () \<in> set (container_get_all_terminals scenario_container)
   \<and> find_parent_split scenario_container (TerminalPage 0 ())
       = Some ([First], SplitContainer 4 VERTICAL 0.5 None
                          (Some (TerminalPage 0 ())) (Some (TerminalPage 1 ())))
   \<and> map_option forget_focus
         (c_content (collapse_terminal scenario_container (TerminalPage 0 ())))
       = Some (forget_focus (replace_at [First] (TerminalPage 1 ()) scenario_tree))
   \<and> height (replace_at [First] (TerminalPage 1 ()) scenario_tree) \<le> height scenario_tree
   \<and> c_content (collapse_terminal scenario_container (TerminalPage 0 ()))
       = Some (SplitContainer 3 HORIZONTAL 0.5 (Some First)
                 (Some (TerminalPage 1 ())) (Some (TerminalPage 2 ())))"
proof -
  let ?parent = "SplitContainer 4 VERTICAL 0.5 None
                   (Some (TerminalPage 0 ())) (Some (TerminalPage 1 ())) :: unit widget"
  have h1: "c_content scenario_container = Some scenario_tree"
    by (simp add: scenario_container_def new_container_def)
  have h2: "is_split_container scenario_tree"
    by (simp add: scenario_tree_def)
  have h3: "distinct (widget_ids scenario_tree)"
    by (simp add: scenario_tree_def)
  have h4: "TerminalPage 0 () \<in> set (container_get_all_terminals scenario_container)"
    by (simp add: container_terminals_leaves scenario_container_def scenario_tree_def
          new_container_def)
  have fp: "find_parent_split scenario_container (TerminalPage 0 ()) = Some ([First], ?parent)"
    by (simp add: scenario_container_def scenario_tree_def new_container_def
          find_parent_split_def find_unfold find_in_slot_Some first_found_def below_def)
  have ev: "c_content (collapse_terminal scenario_container (TerminalPage 0 ()))
       = Some (SplitContainer 3 HORIZONTAL 0.5 (Some First)
                 (Some (TerminalPage 1 ())) (Some (TerminalPage 2 ())))"
    by (simp add: scenario_container_def scenario_tree_def collapse_terminal_def is_split_def
        new_container_def find_parent_split_def find_unfold find_in_slot_Some first_found_def
        below_def Let_def replace_child_def grab_focus_def in_slot_def
        update_active_terminal_def set_active_terminal_def)
  from collapse_terminal_replaces_parent
         [of scenario_container "TerminalPage 0 ()" scenario_tree] h1 h2 h3 h4
  obtain pth parent where
    f: "find_parent_split scenario_container (TerminalPage 0 ()) = Some (pth, parent)"
    and r: "\<And>sib. (get_child1 parent = Some (TerminalPage 0 ()) \<and> get_child2 parent = Some sib)
                  \<or> (get_child1 parent = Some sib \<and> get_child2 parent = Some (TerminalPage 0 ())) \<Longrightarrow>
            map_option forget_focus
              (c_content (collapse_terminal scenario_container (TerminalPage 0 ())))
              = Some (forget_focus (replace_at pth sib scenario_tree))
            \<and> height (replace_at pth sib scenario_tree) \<le> height scenario_tree"
    by blast
  from f fp have pp: "pth = [First]" "parent = ?parent" by simp_all
  from r[of "TerminalPage 1 ()"] pp
  have "map_option forget_focus
          (c_content (collapse_terminal scenario_container (TerminalPage 0 ())))
          = Some (forget_focus (replace_at [First] (TerminalPage 1 ()) scenario_tree))
        \<and> height (replace_at [First] (TerminalPage 1 ()) scenario_tree) \<le> height scenario_tree"
    by simp
  with h1 h2 h3 h4 fp ev show ?thesis by simp
qed

end
